theory Spec2Isabelle
  imports Complex_Main
begin

section \<open>Conventions of the embedding\<close>

text \<open>
  The development embeds the task store of \<^verbatim>\<open>backend/api/services/task_service.py\<close>,
  the cancel route of \<^verbatim>\<open>backend/api/routes/task.py\<close>, the region preparation of
  \<^verbatim>\<open>backend/api/services/video_service.py\<close>, the merge pass of
  \<^verbatim>\<open>backend/api/models/timed_subtitle.py\<close> and the three analysis functions of
  \<^verbatim>\<open>alternative_subtitle_detection.py\<close>.

  \<^item> Python \<^verbatim>\<open>int\<close> is \<^typ>\<open>int\<close>. Python \<^verbatim>\<open>float\<close> is \<^typ>\<open>rat\<close>: every finite float
    is a rational, and float arithmetic is taken without rounding error. Where a float
    comes from a request body it may also be infinite or not a number (\<open>json_num\<close>).
  \<^item> Python \<^verbatim>\<open>str\<close> is \<^typ>\<open>string\<close>, holding the UTF-8 bytes of the text.
  \<^item> \<^verbatim>\<open>datetime\<close> values are natural numbers (a clock reading); \<^verbatim>\<open>datetime.now()\<close>
    is an argument \<open>now\<close> of the operation that reads the clock. A \<^verbatim>\<open>datetime\<close> object
    is always truthy, so \<^verbatim>\<open>not task.started_at\<close> holds exactly when the field is
    \<^verbatim>\<open>None\<close>.
  \<^item> Python's \<^verbatim>\<open>int(v)\<close> of a float truncates towards zero (\<open>py_int\<close>); \<^verbatim>\<open>//\<close> on
    integers is floor division, which is \<open>div\<close> on \<^typ>\<open>int\<close>, and raises
    \<^verbatim>\<open>ZeroDivisionError\<close> on a zero divisor, which the model returns as an error value.
  \<^item> Objects that the source mutates in place are values that the model returns updated.
    The regions of a region list are distinct objects, as every producer in the repository
    constructs each region afresh.
  \<^item> Logging is left out: it changes no value that the modelled functions return.
  \<^item> The class attribute \<^verbatim>\<open>TaskService._tasks\<close> is a map from task ids to tasks that
    every operation takes and returns. The operations are modelled one call at a time:
    the interleaving of coroutines is outside the embedding.
\<close>

type_synonym datetime = nat

text \<open>
  A number of a request body as \<^verbatim>\<open>json.loads\<close> yields it: a Python \<^verbatim>\<open>int\<close>, a finite
  \<^verbatim>\<open>float\<close>, or one of the floats \<^verbatim>\<open>inf\<close>, \<^verbatim>\<open>-inf\<close> and \<^verbatim>\<open>nan\<close> (from \<^verbatim>\<open>Infinity\<close>,
  \<^verbatim>\<open>-Infinity\<close>, \<^verbatim>\<open>NaN\<close> or a literal such as \<^verbatim>\<open>1e999\<close>).
\<close>

datatype json_num = JInt int | JFloat rat | JInf | JNegInf | JNaN

section \<open>Task model (\<^verbatim>\<open>backend/api/models/task.py\<close>)\<close>

datatype TaskStatus = PENDING | DETECTING | PROCESSING | COMPLETED | FAILED

fun status_value :: "TaskStatus \<Rightarrow> string" where
  "status_value PENDING = ''pending''"
| "status_value DETECTING = ''detecting''"
| "status_value PROCESSING = ''processing''"
| "status_value COMPLETED = ''completed''"
| "status_value FAILED = ''failed''"

datatype AlgorithmType = STTN | LAMA | PROPAINTER

record Task =
  task_id :: string
  status :: TaskStatus
  progress :: rat
  algorithm :: AlgorithmType
  original_filename :: string
  file_path :: "string option"
  output_path :: "string option"
  output_filename :: "string option"
  created_at :: datetime
  started_at :: "datetime option"
  completed_at :: "datetime option"
  error_message :: "string option"
  subtitle_regions :: "json_num list list option"
  config_override :: "(string \<times> string) list option"
  file_size :: "int option"
  duration :: "rat option"
  auto_detect_subtitles :: "bool option"

type_synonym task_store = "string \<rightharpoonup> Task"

section \<open>Task service (\<^verbatim>\<open>backend/api/services/task_service.py\<close>)\<close>

definition get_task :: "task_store \<Rightarrow> string \<Rightarrow> Task option" where
  "get_task tasks tid = tasks tid"

text \<open>
  \<^verbatim>\<open>update_task_status\<close>: the record of the task is updated field by field in the order
  of the source, and the updated object stays in the store under the same id.
\<close>

definition set_timestamps :: "datetime \<Rightarrow> TaskStatus \<Rightarrow> Task \<Rightarrow> Task" where
  "set_timestamps now st task =
     (if st = PROCESSING \<and> started_at task = None then task\<lparr>started_at := Some now\<rparr>
      else if st \<in> set [COMPLETED, FAILED] then task\<lparr>completed_at := Some now\<rparr>
      else task)"

definition update_task_status ::
  "datetime \<Rightarrow> task_store \<Rightarrow> string \<Rightarrow> TaskStatus \<Rightarrow> rat option \<Rightarrow> string option \<Rightarrow>
   string option \<Rightarrow> string option \<Rightarrow> task_store \<times> Task option" where
  "update_task_status now tasks tid st prog err outp outf =
     (case tasks tid of
        None \<Rightarrow> (tasks, None)
      | Some task0 \<Rightarrow>
          let task1 = task0\<lparr>status := st\<rparr>;
              task2 = (case prog of None \<Rightarrow> task1 | Some p \<Rightarrow> task1\<lparr>progress := p\<rparr>);
              task3 = (case err of None \<Rightarrow> task2 | Some e \<Rightarrow> task2\<lparr>error_message := Some e\<rparr>);
              task4 = (case outp of None \<Rightarrow> task3 | Some p \<Rightarrow> task3\<lparr>output_path := Some p\<rparr>);
              task5 = (case outf of None \<Rightarrow> task4 | Some f \<Rightarrow> task4\<lparr>output_filename := Some f\<rparr>);
              task6 = set_timestamps now st task5
          in (tasks(tid \<mapsto> task6), Some task6))"

definition update_subtitle_regions ::
  "task_store \<Rightarrow> string \<Rightarrow> json_num list list \<Rightarrow> task_store \<times> Task option" where
  "update_subtitle_regions tasks tid regions =
     (case tasks tid of
        None \<Rightarrow> (tasks, None)
      | Some task \<Rightarrow>
          let task' = task\<lparr>subtitle_regions := Some regions\<rparr>
          in (tasks(tid \<mapsto> task'), Some task'))"

definition cancelled_by_user :: string where
  "cancelled_by_user =
     [CHR 0xE4, CHR 0xBB, CHR 0xBB, CHR 0xE5, CHR 0x8A, CHR 0xA1, CHR 0xE5, CHR 0xB7, CHR 0xB2,
      CHR 0xE8, CHR 0xA2, CHR 0xAB, CHR 0xE7, CHR 0x94, CHR 0xA8, CHR 0xE6, CHR 0x88, CHR 0xB7,
      CHR 0xE5, CHR 0x8F, CHR 0x96, CHR 0xE6, CHR 0xB6, CHR 0x88]"

definition cancel_task :: "datetime \<Rightarrow> task_store \<Rightarrow> string \<Rightarrow> task_store \<times> bool" where
  "cancel_task now tasks tid =
     (let (tasks', task) = update_task_status now tasks tid FAILED None (Some cancelled_by_user) None None
      in (tasks', task \<noteq> None))"

definition update_task_progress ::
  "datetime \<Rightarrow> task_store \<Rightarrow> string \<Rightarrow> rat \<Rightarrow> task_store \<times> Task option" where
  "update_task_progress now tasks tid p =
     update_task_status now tasks tid PROCESSING (Some p) None None None"

section \<open>Cancel route (\<^verbatim>\<open>backend/api/routes/task.py\<close>)\<close>

text \<open>
  A raised \<^verbatim>\<open>HTTPException\<close> is the left summand of the result, with its status code and
  detail; the handler re-raises it unchanged. The calls in the \<^verbatim>\<open>try\<close> block raise nothing
  else, so the status 500 branch has no counterpart.
\<close>

datatype http_error = HTTPException nat string

record APIResponse =
  success :: bool
  message :: string
  data_task_id :: string

definition task_not_found :: string where
  "task_not_found =
     [CHR 0xE4, CHR 0xBB, CHR 0xBB, CHR 0xE5, CHR 0x8A, CHR 0xA1, CHR 0xE4, CHR 0xB8, CHR 0x8D,
      CHR 0xE5, CHR 0xAD, CHR 0x98, CHR 0xE5, CHR 0x9C, CHR 0xA8]"

definition only_processing_cancellable :: string where
  "only_processing_cancellable =
     [CHR 0xE5, CHR 0x8F, CHR 0xAA, CHR 0xE8, CHR 0x83, CHR 0xBD, CHR 0xE5, CHR 0x8F, CHR 0x96,
      CHR 0xE6, CHR 0xB6, CHR 0x88, CHR 0xE6, CHR 0xAD, CHR 0xA3, CHR 0xE5, CHR 0x9C, CHR 0xA8,
      CHR 0xE5, CHR 0xA4, CHR 0x84, CHR 0xE7, CHR 0x90, CHR 0x86, CHR 0xE7, CHR 0x9A, CHR 0x84,
      CHR 0xE4, CHR 0xBB, CHR 0xBB, CHR 0xE5, CHR 0x8A, CHR 0xA1]"

definition cancel_succeeded :: string where
  "cancel_succeeded =
     [CHR 0xE4, CHR 0xBB, CHR 0xBB, CHR 0xE5, CHR 0x8A, CHR 0xA1, CHR 0xE5, CHR 0x8F, CHR 0x96,
      CHR 0xE6, CHR 0xB6, CHR 0x88, CHR 0xE6, CHR 0x88, CHR 0x90, CHR 0xE5, CHR 0x8A, CHR 0x9F]"

definition cancel_task_route ::
  "datetime \<Rightarrow> task_store \<Rightarrow> string \<Rightarrow> task_store \<times> (http_error + APIResponse)" where
  "cancel_task_route now tasks tid =
     (case get_task tasks tid of
        None \<Rightarrow> (tasks, Inl (HTTPException 404 task_not_found))
      | Some task \<Rightarrow>
          if status_value (status task) \<noteq> ''processing''
          then (tasks, Inl (HTTPException 400 only_processing_cancellable))
          else let (tasks', _) = cancel_task now tasks tid
               in (tasks', Inr \<lparr>success = True, message = cancel_succeeded, data_task_id = tid\<rparr>))"

text \<open>
  The transition relation of the specification, written from its words: the two paths
  \<open>PENDING \<rightarrow> DETECTING \<rightarrow> PROCESSING \<rightarrow> {COMPLETED, FAILED}\<close> and
  \<open>PENDING \<rightarrow> PROCESSING \<rightarrow> {COMPLETED, FAILED}\<close>.
\<close>

fun spec_allowed_transition :: "TaskStatus \<Rightarrow> TaskStatus \<Rightarrow> bool" where
  "spec_allowed_transition PENDING DETECTING = True"
| "spec_allowed_transition PENDING PROCESSING = True"
| "spec_allowed_transition DETECTING PROCESSING = True"
| "spec_allowed_transition PROCESSING COMPLETED = True"
| "spec_allowed_transition PROCESSING FAILED = True"
| "spec_allowed_transition _ _ = False"

text \<open>
  A sequence of service calls on one task, each with the clock reading at the call.
\<close>

datatype task_call =
    UpdateTaskStatus TaskStatus "rat option" "string option" "string option" "string option"
  | UpdateTaskProgress rat
  | CancelTask
  | UpdateSubtitleRegions "json_num list list"

fun task_call_run :: "task_store \<Rightarrow> string \<Rightarrow> datetime \<times> task_call \<Rightarrow> task_store" where
  "task_call_run tasks tid (now, UpdateTaskStatus st prog err outp outf) =
     fst (update_task_status now tasks tid st prog err outp outf)"
| "task_call_run tasks tid (now, UpdateTaskProgress p) = fst (update_task_progress now tasks tid p)"
| "task_call_run tasks tid (now, CancelTask) = fst (cancel_task now tasks tid)"
| "task_call_run tasks tid (now, UpdateSubtitleRegions rs) = fst (update_subtitle_regions tasks tid rs)"

fun task_calls_run :: "task_store \<Rightarrow> string \<Rightarrow> (datetime \<times> task_call) list \<Rightarrow> task_store" where
  "task_calls_run tasks tid [] = tasks"
| "task_calls_run tasks tid (c # cs) = task_calls_run (task_call_run tasks tid c) tid cs"

text \<open>
  A task as \<^verbatim>\<open>create_task\<close> stores it for an upload \<^verbatim>\<open>in.mp4\<close> with the default request:
  status \<open>PENDING\<close>, progress 0, no timestamps but the creation time.
\<close>

definition new_task :: "string \<Rightarrow> datetime \<Rightarrow> Task" where
  "new_task tid now =
     \<lparr>task_id = tid, status = PENDING, progress = 0, algorithm = STTN,
      original_filename = ''in.mp4'', file_path = Some ''uploads/in.mp4'', output_path = None,
      output_filename = None, created_at = now, started_at = None, completed_at = None,
      error_message = None, subtitle_regions = None, config_override = None,
      file_size = None, duration = None, auto_detect_subtitles = Some False\<rparr>"

text \<open>A store holding one task, in a given status.\<close>

definition example_task :: "TaskStatus \<Rightarrow> Task" where
  "example_task st = (new_task ''t1'' 1)\<lparr>status := st\<rparr>"

definition example_store :: "TaskStatus \<Rightarrow> task_store" where
  "example_store st = [''t1'' \<mapsto> example_task st]"

section \<open>Python primitives\<close>

datatype py_error = ValueError | ZeroDivisionError | OverflowError

text \<open>\<^verbatim>\<open>int(v)\<close> of a float: truncation towards zero.\<close>

definition py_int :: "rat \<Rightarrow> int" where
  "py_int q = (if 0 \<le> q then \<lfloor>q\<rfloor> else \<lceil>q\<rceil>)"

text \<open>
  \<^verbatim>\<open>min\<close> and \<^verbatim>\<open>max\<close> of a list keep the best element seen so far. On an empty list
  Python raises \<^verbatim>\<open>ValueError\<close>; every use below is guarded so that the list is not
  empty (the guard stands in the model where Python would raise).
\<close>

fun py_min :: "int list \<Rightarrow> int" where
  "py_min (x # xs) = fold min xs x"

fun py_max :: "int list \<Rightarrow> int" where
  "py_max (x # xs) = fold max xs x"

text \<open>\<^verbatim>\<open>np.mean\<close> of a non-empty list.\<close>

definition np_mean :: "rat list \<Rightarrow> rat" where
  "np_mean xs = sum_list xs / of_nat (length xs)"

text \<open>The decimal rendering of an integer in an f-string.\<close>

fun str_nat :: "nat \<Rightarrow> string" where
  "str_nat n = (if n < 10 then [''0123456789'' ! n]
                else str_nat (n div 10) @ [''0123456789'' ! (n mod 10)])"

definition str_int :: "int \<Rightarrow> string" where
  "str_int i = (if i < 0 then ''-'' @ str_nat (nat (- i)) else str_nat (nat i))"

section \<open>Region preparation (\<^verbatim>\<open>VideoService._process_video_sync\<close>)\<close>









section \<open>Timed regions (\<^verbatim>\<open>backend/api/models/timed_subtitle.py\<close>)\<close>

text \<open>
  The fields \<^verbatim>\<open>x\<close>, \<^verbatim>\<open>y\<close>, \<^verbatim>\<open>width\<close> and \<^verbatim>\<open>height\<close> of a region are \<open>rx\<close>, \<open>ry\<close>,
  \<open>rwidth\<close> and \<open>rheight\<close>.
\<close>

record TimedSubtitleRegion =
  start_frame :: int
  end_frame :: int
  rx :: int
  ry :: int
  rwidth :: int
  rheight :: int
  confidence :: rat
  text_content :: string

record TimedSubtitleAnalysis =
  has_subtitles :: bool
  subtitle_type :: string
  timed_regions :: "TimedSubtitleRegion list"
  total_frames :: int
  fps :: rat

text \<open>
  \<^verbatim>\<open>sub in s\<close> on strings: \<open>str_contains s sub\<close>. On UTF-8 bytes it agrees with the
  test on code points, since no encoded character starts inside another.
\<close>

fun startswith :: "string \<Rightarrow> string \<Rightarrow> bool" where
  "startswith s [] = True"
| "startswith [] (p # ps) = False"
| "startswith (c # cs) (p # ps) = (c = p \<and> startswith cs ps)"

fun str_contains :: "string \<Rightarrow> string \<Rightarrow> bool" where
  "str_contains [] sub = (sub = [])"
| "str_contains (c # cs) sub = (startswith (c # cs) sub \<or> str_contains cs sub)"

text \<open>
  The body of the loop of \<^verbatim>\<open>merge_overlapping_regions\<close>: \<open>merged\<close> is the list built so
  far and \<open>region\<close> the next region of the sorted list. A merge updates the last element
  of \<open>merged\<close> in the order of the source: end frame, confidence, text.
\<close>

definition merge_region ::
  "int \<Rightarrow> TimedSubtitleRegion list \<Rightarrow> TimedSubtitleRegion \<Rightarrow> TimedSubtitleRegion list" where
  "merge_region time_threshold merged region =
     (if merged = [] then merged @ [region]
      else
        let last_region = last merged;
            x_diff = \<bar>rx region - rx last_region\<bar>;
            y_diff = \<bar>ry region - ry last_region\<bar>;
            w_diff = \<bar>rwidth region - rwidth last_region\<bar>;
            h_diff = \<bar>rheight region - rheight last_region\<bar>;
            time_gap = start_frame region - end_frame last_region
        in if x_diff \<le> 20 \<and> y_diff \<le> 20 \<and> w_diff \<le> 30 \<and> h_diff \<le> 20
              \<and> time_gap \<le> time_threshold
           then butlast merged @
             [last_region\<lparr>
                end_frame := end_frame region,
                confidence := (confidence last_region + confidence region) / 2,
                text_content :=
                  (if text_content region \<noteq> []
                      \<and> \<not> str_contains (text_content last_region) (text_content region)
                   then text_content last_region @ '' | '' @ text_content region
                   else text_content last_region)\<rparr>]
           else merged @ [region])"

text \<open>
  \<^verbatim>\<open>sorted(..., key=lambda r: r.start_frame)\<close> is a stable sort, as \<^const>\<open>sort_key\<close> is.
\<close>

definition merge_overlapping_regions :: "TimedSubtitleAnalysis \<Rightarrow> int \<Rightarrow> TimedSubtitleAnalysis" where
  "merge_overlapping_regions self time_threshold =
     (if timed_regions self = [] then self
      else
        let sorted_regions = sort_key start_frame (timed_regions self);
            merged = foldl (merge_region time_threshold) [] sorted_regions
        in self\<lparr>timed_regions := merged\<rparr>)"

text \<open>The call with the default argument \<^verbatim>\<open>time_threshold=10\<close>.\<close>

definition merge_overlapping_regions_default :: "TimedSubtitleAnalysis \<Rightarrow> TimedSubtitleAnalysis" where
  "merge_overlapping_regions_default self = merge_overlapping_regions self 10"

section \<open>Analysis of detection results (\<^verbatim>\<open>alternative_subtitle_detection.py\<close>)\<close>

text \<open>
  The detector object, with the four attributes that the analysis functions read:
  \<^verbatim>\<open>self.width\<close>, \<^verbatim>\<open>self.height\<close>, \<^verbatim>\<open>self.fps\<close> and \<^verbatim>\<open>self.total_frames\<close>.
\<close>

record AlternativeSubtitleDetector =
  det_width :: int
  det_height :: int
  det_fps :: rat
  det_total_frames :: int

text \<open>
  The dictionaries that the detection methods append: the keys \<^verbatim>\<open>frame_no\<close>, \<^verbatim>\<open>x\<close>,
  \<^verbatim>\<open>y\<close>, \<^verbatim>\<open>width\<close>, \<^verbatim>\<open>height\<close> are common to the OCR and the edge hits (\<open>hx\<close>, \<open>hy\<close>,
  \<open>hwidth\<close>, \<open>hheight\<close>); an OCR hit adds \<^verbatim>\<open>text\<close> and \<^verbatim>\<open>confidence\<close>, an edge hit
  \<^verbatim>\<open>area\<close> and \<^verbatim>\<open>aspect_ratio\<close>. A motion change has \<^verbatim>\<open>frame_no\<close>, \<^verbatim>\<open>change_ratio\<close>
  and \<^verbatim>\<open>prev_frame_no\<close>; a motion segment has \<^verbatim>\<open>start\<close>, \<^verbatim>\<open>end\<close> and \<^verbatim>\<open>changes\<close>.
\<close>

record Hit =
  frame_no :: int
  hx :: int
  hy :: int
  hwidth :: int
  hheight :: int

record OcrHit = Hit +
  htext :: string
  hconfidence :: rat

record EdgeHit = Hit +
  harea :: rat
  aspect_ratio :: rat

record MotionChange =
  change_frame_no :: int
  change_ratio :: rat
  prev_frame_no :: int

record Segment =
  seg_start :: int
  seg_end :: int
  seg_changes :: int

definition create_empty_analysis :: "AlternativeSubtitleDetector \<Rightarrow> TimedSubtitleAnalysis" where
  "create_empty_analysis self =
     \<lparr>has_subtitles = False, subtitle_type = ''hard'', timed_regions = [],
      total_frames = det_total_frames self, fps = det_fps self\<rparr>"

subsection \<open>\<^verbatim>\<open>_cluster_regions\<close>\<close>

text \<open>
  The two nested loops over \<^verbatim>\<open>enumerate(regions)\<close>, with the set \<^verbatim>\<open>used\<close> of indices:
  \<open>cluster_inner\<close> is the body of the inner loop, \<open>cluster_outer\<close> the body of the outer
  one.
\<close>

definition cluster_inner ::
  "int \<Rightarrow> 'a Hit_scheme \<Rightarrow> 'a Hit_scheme list \<times> nat set \<Rightarrow> nat \<times> 'a Hit_scheme \<Rightarrow>
   'a Hit_scheme list \<times> nat set" where
  "cluster_inner distance_threshold region1 st jr =
     (case (st, jr) of ((cluster, used), (j, region2)) \<Rightarrow>
        if j \<in> used then (cluster, used)
        else
          let x_diff = \<bar>hx region1 - hx region2\<bar>;
              y_diff = \<bar>hy region1 - hy region2\<bar>;
              w_diff = \<bar>hwidth region1 - hwidth region2\<bar>;
              h_diff = \<bar>hheight region1 - hheight region2\<bar>
          in if x_diff < distance_threshold \<and> y_diff < distance_threshold
                \<and> w_diff < distance_threshold \<and> h_diff < distance_threshold
             then (cluster @ [region2], insert j used)
             else (cluster, used))"

definition cluster_outer ::
  "int \<Rightarrow> 'a Hit_scheme list \<Rightarrow> 'a Hit_scheme list list \<times> nat set \<Rightarrow> nat \<times> 'a Hit_scheme \<Rightarrow>
   'a Hit_scheme list list \<times> nat set" where
  "cluster_outer distance_threshold regions st ir =
     (case (st, ir) of ((clusters, used), (i, region1)) \<Rightarrow>
        if i \<in> used then (clusters, used)
        else
          let (cluster, used') =
                foldl (cluster_inner distance_threshold region1) ([region1], insert i used)
                  (enumerate 0 regions)
          in (if length cluster > 0 then clusters @ [cluster] else clusters, used'))"

definition cluster_regions :: "'a Hit_scheme list \<Rightarrow> int \<Rightarrow> 'a Hit_scheme list list" where
  "cluster_regions regions distance_threshold =
     (if regions = [] then []
      else fst (foldl (cluster_outer distance_threshold regions) ([], {}) (enumerate 0 regions)))"

subsection \<open>\<^verbatim>\<open>_analyze_ocr_results\<close>\<close>

definition ocr_label :: "int \<Rightarrow> int \<Rightarrow> string" where
  "ocr_label s e =
     ''OCR'' @ [CHR 0xE6, CHR 0xA3, CHR 0x80, CHR 0xE6, CHR 0xB5, CHR 0x8B, CHR 0xE5, CHR 0x8C,
                CHR 0xBA, CHR 0xE5, CHR 0x9F, CHR 0x9F] @ '' ('' @ [CHR 0xE5, CHR 0xB8, CHR 0xA7]
     @ str_int s @ ''-'' @ str_int e @ '')''"

text \<open>
  The region of one cluster. \<^verbatim>\<open>min(frames)\<close> is the first call that would raise on an
  empty cluster.
\<close>

definition ocr_cluster_region ::
  "AlternativeSubtitleDetector \<Rightarrow> OcrHit list \<Rightarrow> py_error + TimedSubtitleRegion" where
  "ocr_cluster_region self cluster =
     (let frames = map frame_no cluster
      in if frames = [] then Inl ValueError
         else
           let start_frame' = py_min frames;
               end_frame' = py_max frames;
               avg_x = py_int (np_mean (map (\<lambda>r. of_int (hx r)) cluster));
               avg_y = py_int (np_mean (map (\<lambda>r. of_int (hy r)) cluster));
               avg_w = py_int (np_mean (map (\<lambda>r. of_int (hwidth r)) cluster));
               avg_h = py_int (np_mean (map (\<lambda>r. of_int (hheight r)) cluster));
               avg_conf = np_mean (map hconfidence cluster);
               duration_frames = py_int (det_fps self * (5 / 2));
               expanded_start = max 0 (start_frame' - duration_frames div 2);
               expanded_end = min (det_total_frames self - 1) (end_frame' + duration_frames div 2)
           in Inr \<lparr>start_frame = expanded_start, end_frame = expanded_end,
                   rx = avg_x, ry = avg_y, rwidth = avg_w, rheight = avg_h,
                   confidence = avg_conf,
                   text_content = ocr_label start_frame' end_frame'\<rparr>)"

fun ocr_cluster_loop ::
  "AlternativeSubtitleDetector \<Rightarrow> TimedSubtitleRegion list \<Rightarrow> OcrHit list list \<Rightarrow>
   py_error + TimedSubtitleRegion list" where
  "ocr_cluster_loop self timed [] = Inr timed"
| "ocr_cluster_loop self timed (cluster # rest) =
     (case ocr_cluster_region self cluster of
        Inl e \<Rightarrow> Inl e
      | Inr region \<Rightarrow> ocr_cluster_loop self (timed @ [region]) rest)"

definition analyze_ocr_results ::
  "AlternativeSubtitleDetector \<Rightarrow> OcrHit list \<Rightarrow> py_error + TimedSubtitleAnalysis" where
  "analyze_ocr_results self regions =
     (if regions = [] then Inr (create_empty_analysis self)
      else
        let clustered_regions = cluster_regions regions 50
        in case ocr_cluster_loop self [] clustered_regions of
             Inl e \<Rightarrow> Inl e
           | Inr timed \<Rightarrow>
               Inr \<lparr>has_subtitles = length timed > 0, subtitle_type = ''hard'',
                    timed_regions = timed, total_frames = det_total_frames self,
                    fps = det_fps self\<rparr>)"

subsection \<open>\<^verbatim>\<open>_analyze_edge_results\<close>\<close>

text \<open>
  The dictionary \<^verbatim>\<open>time_groups\<close> is an association list in insertion order, the order in
  which \<^verbatim>\<open>items()\<close> yields it. The key of a hit is \<^verbatim>\<open>frame_no // int(self.fps * 2)\<close>.
\<close>

fun group_append ::
  "int \<Rightarrow> EdgeHit \<Rightarrow> (int \<times> EdgeHit list) list \<Rightarrow> (int \<times> EdgeHit list) list" where
  "group_append time_key region [] = [(time_key, [region])]"
| "group_append time_key region ((k, grp) # rest) =
     (if k = time_key then (k, grp @ [region]) # rest
      else (k, grp) # group_append time_key region rest)"

fun edge_group_loop ::
  "AlternativeSubtitleDetector \<Rightarrow> (int \<times> EdgeHit list) list \<Rightarrow> EdgeHit list \<Rightarrow>
   py_error + (int \<times> EdgeHit list) list" where
  "edge_group_loop self time_groups [] = Inr time_groups"
| "edge_group_loop self time_groups (region # rest) =
     (if py_int (det_fps self * 2) = 0 then Inl ZeroDivisionError
      else
        let time_key = frame_no region div py_int (det_fps self * 2)
        in edge_group_loop self (group_append time_key region time_groups) rest)"

definition edge_label :: "int \<Rightarrow> int \<Rightarrow> string" where
  "edge_label s e =
     [CHR 0xE8, CHR 0xBE, CHR 0xB9, CHR 0xE7, CHR 0xBC, CHR 0x98, CHR 0xE6, CHR 0xA3, CHR 0x80,
      CHR 0xE6, CHR 0xB5, CHR 0x8B, CHR 0xE5, CHR 0x8C, CHR 0xBA, CHR 0xE5, CHR 0x9F, CHR 0x9F]
     @ '' ('' @ [CHR 0xE5, CHR 0xB8, CHR 0xA7] @ str_int s @ ''-'' @ str_int e @ '')''"

definition edge_group_region ::
  "AlternativeSubtitleDetector \<Rightarrow> EdgeHit list \<Rightarrow> TimedSubtitleRegion" where
  "edge_group_region self grp =
     (let frames = map frame_no grp;
          start_frame' = py_min frames;
          end_frame' = py_max frames;
          min_x = py_min (map hx grp);
          max_x = py_max (map (\<lambda>r. hx r + hwidth r) grp);
          min_y = py_min (map hy grp);
          max_y = py_max (map (\<lambda>r. hy r + hheight r) grp);
          duration_frames = py_int (det_fps self * 3);
          expanded_start = max 0 (start_frame' - duration_frames div 2);
          expanded_end = min (det_total_frames self - 1) (end_frame' + duration_frames div 2)
      in \<lparr>start_frame = expanded_start, end_frame = expanded_end,
          rx = min_x, ry = min_y, rwidth = max_x - min_x, rheight = max_y - min_y,
          confidence = 7 / 10,
          text_content = edge_label start_frame' end_frame'\<rparr>)"

fun edge_region_loop ::
  "AlternativeSubtitleDetector \<Rightarrow> TimedSubtitleRegion list \<Rightarrow> (int \<times> EdgeHit list) list \<Rightarrow>
   TimedSubtitleRegion list" where
  "edge_region_loop self timed [] = timed"
| "edge_region_loop self timed ((time_key, grp) # rest) =
     (if length grp \<ge> 2
      then edge_region_loop self (timed @ [edge_group_region self grp]) rest
      else edge_region_loop self timed rest)"

definition analyze_edge_results ::
  "AlternativeSubtitleDetector \<Rightarrow> EdgeHit list \<Rightarrow> py_error + TimedSubtitleAnalysis" where
  "analyze_edge_results self regions =
     (if regions = [] then Inr (create_empty_analysis self)
      else
        case edge_group_loop self [] regions of
          Inl e \<Rightarrow> Inl e
        | Inr time_groups \<Rightarrow>
            let timed = edge_region_loop self [] time_groups
            in Inr \<lparr>has_subtitles = length timed > 0, subtitle_type = ''hard'',
                    timed_regions = timed, total_frames = det_total_frames self,
                    fps = det_fps self\<rparr>)"

subsection \<open>\<^verbatim>\<open>_analyze_motion_results\<close>\<close>

text \<open>
  The state of the loop is the list \<^verbatim>\<open>subtitle_segments\<close> and \<^verbatim>\<open>current_start\<close>;
  \<open>motion_step\<close> is the body of the loop, \<open>motion_segments\<close> the loop followed by the
  handling of the last segment.
\<close>

definition motion_step ::
  "AlternativeSubtitleDetector \<Rightarrow> Segment list \<times> int option \<Rightarrow> MotionChange \<Rightarrow>
   Segment list \<times> int option" where
  "motion_step self st change =
     (case st of (subtitle_segments, current_start0) \<Rightarrow>
        let current_start =
              (case current_start0 of None \<Rightarrow> Some (change_frame_no change) | Some s \<Rightarrow> Some s)
        in if length subtitle_segments > 0
           then
             let last_end = seg_end (last subtitle_segments)
             in if of_int (change_frame_no change - last_end) > det_fps self * 5
                then (case current_start of
                        Some s \<Rightarrow>
                          (subtitle_segments @
                             [\<lparr>seg_start = s, seg_end = change_frame_no change, seg_changes = 1\<rparr>],
                           Some (change_frame_no change))
                      | None \<Rightarrow> (subtitle_segments, current_start))
                else (subtitle_segments, current_start)
           else (subtitle_segments, current_start))"

definition motion_segments ::
  "AlternativeSubtitleDetector \<Rightarrow> MotionChange list \<Rightarrow> Segment list" where
  "motion_segments self changes =
     (case foldl (motion_step self) ([], None) changes of
        (subtitle_segments, current_start) \<Rightarrow>
          (case current_start of
             Some s \<Rightarrow>
               if changes \<noteq> []
               then subtitle_segments @
                      [\<lparr>seg_start = s, seg_end = change_frame_no (last changes),
                        seg_changes = int (length changes)\<rparr>]
               else subtitle_segments
           | None \<Rightarrow> subtitle_segments))"

definition motion_label :: "int \<Rightarrow> int \<Rightarrow> string" where
  "motion_label s e =
     [CHR 0xE8, CHR 0xBF, CHR 0x90, CHR 0xE5, CHR 0x8A, CHR 0xA8, CHR 0xE6, CHR 0xA3, CHR 0x80,
      CHR 0xE6, CHR 0xB5, CHR 0x8B, CHR 0xE5, CHR 0x8C, CHR 0xBA, CHR 0xE5, CHR 0x9F, CHR 0x9F]
     @ '' ('' @ [CHR 0xE5, CHR 0xB8, CHR 0xA7] @ str_int s @ ''-'' @ str_int e @ '')''"

definition motion_segment_region ::
  "AlternativeSubtitleDetector \<Rightarrow> Segment \<Rightarrow> TimedSubtitleRegion" where
  "motion_segment_region self segment =
     \<lparr>start_frame = seg_start segment, end_frame = seg_end segment,
      rx = py_int (of_int (det_width self) * (1 / 10)),
      ry = py_int (of_int (det_height self) * (8 / 10)),
      rwidth = py_int (of_int (det_width self) * (8 / 10)),
      rheight = py_int (of_int (det_height self) * (15 / 100)),
      confidence = 6 / 10,
      text_content = motion_label (seg_start segment) (seg_end segment)\<rparr>"

fun motion_region_loop ::
  "AlternativeSubtitleDetector \<Rightarrow> TimedSubtitleRegion list \<Rightarrow> Segment list \<Rightarrow>
   TimedSubtitleRegion list" where
  "motion_region_loop self timed [] = timed"
| "motion_region_loop self timed (segment # rest) =
     (if seg_changes segment \<ge> 2
      then motion_region_loop self (timed @ [motion_segment_region self segment]) rest
      else motion_region_loop self timed rest)"

definition analyze_motion_results ::
  "AlternativeSubtitleDetector \<Rightarrow> MotionChange list \<Rightarrow> TimedSubtitleAnalysis" where
  "analyze_motion_results self changes =
     (if changes = [] then create_empty_analysis self
      else
        let timed = motion_region_loop self [] (motion_segments self changes)
        in \<lparr>has_subtitles = length timed > 0, subtitle_type = ''hard'',
            timed_regions = timed, total_frames = det_total_frames self,
            fps = det_fps self\<rparr>)"

section \<open>Predicates of the specification\<close>

text \<open>
  A hit lies within the video when its frame number is a frame of the video and its box
  is inside the frame; a region lies within the video when its frame range is ordered and
  inside \<open>[0, total_frames - 1]\<close> and its box is inside the frame: every pixel column
  \<open>c\<close> with \<open>rx \<le> c < rx + rwidth\<close> satisfies \<open>0 \<le> c < width\<close>, and likewise for the
  rows.
\<close>

definition hit_within :: "AlternativeSubtitleDetector \<Rightarrow> 'a Hit_scheme \<Rightarrow> bool" where
  "hit_within self h \<longleftrightarrow>
     0 \<le> frame_no h \<and> frame_no h \<le> det_total_frames self - 1
     \<and> 0 \<le> hx h \<and> 0 \<le> hy h \<and> 0 \<le> hwidth h \<and> 0 \<le> hheight h
     \<and> hx h + hwidth h \<le> det_width self \<and> hy h + hheight h \<le> det_height self"

definition region_within :: "AlternativeSubtitleDetector \<Rightarrow> TimedSubtitleRegion \<Rightarrow> bool" where
  "region_within self r \<longleftrightarrow>
     0 \<le> start_frame r \<and> start_frame r \<le> end_frame r
     \<and> end_frame r \<le> det_total_frames self - 1
     \<and> 0 \<le> rx r \<and> 0 \<le> ry r \<and> 0 \<le> rwidth r \<and> 0 \<le> rheight r
     \<and> rx r + rwidth r \<le> det_width self \<and> ry r + rheight r \<le> det_height self"

text \<open>
  Motion segments as the specification words them: consecutive change events stay in one
  segment unless the gap between them exceeds five seconds of frames, and a segment is a
  region when it has at least two events.
\<close>

fun spec_group_events :: "rat \<Rightarrow> int list \<Rightarrow> int list list" where
  "spec_group_events fps' [] = []"
| "spec_group_events fps' [f] = [[f]]"
| "spec_group_events fps' (f # g # rest) =
     (case spec_group_events fps' (g # rest) of
        [] \<Rightarrow> [[f]]
      | grp # grps \<Rightarrow>
          if of_int (g - f) > fps' * 5 then [f] # grp # grps else (f # grp) # grps)"

definition spec_motion_ranges :: "rat \<Rightarrow> int list \<Rightarrow> (int \<times> int) list" where
  "spec_motion_ranges fps' frames =
     map (\<lambda>grp. (hd grp, last grp)) (filter (\<lambda>grp. length grp \<ge> 2) (spec_group_events fps' frames))"

text \<open>
  The expansion of a cluster's time range as the specification words it: half of
  \<open>round (fps \<times> 2.5)\<close> on each side, then clipping to \<open>[0, total_frames - 1]\<close>.
\<close>

definition spec_half_expansion :: "rat \<Rightarrow> rat" where
  "spec_half_expansion f = of_int (round (f * (5 / 2))) / 2"

definition spec_clip :: "int \<Rightarrow> rat \<Rightarrow> rat" where
  "spec_clip T v = max 0 (min (of_int T - 1) v)"

section \<open>Auxiliary notions of the proofs\<close>

text \<open>
  \<open>mergeable\<close> is the test of the merge pass and \<open>absorb\<close> the update it makes;
  \<open>cluster_ok\<close> and \<open>groups_from\<close> are the invariants of the clustering and the bucketing
  loops.
\<close>

definition mergeable :: "int \<Rightarrow> TimedSubtitleRegion \<Rightarrow> TimedSubtitleRegion \<Rightarrow> bool" where
  "mergeable thr l r \<longleftrightarrow>
     \<bar>rx r - rx l\<bar> \<le> 20 \<and> \<bar>ry r - ry l\<bar> \<le> 20 \<and> \<bar>rwidth r - rwidth l\<bar> \<le> 30
     \<and> \<bar>rheight r - rheight l\<bar> \<le> 20 \<and> start_frame r - end_frame l \<le> thr"

definition absorb :: "TimedSubtitleRegion \<Rightarrow> TimedSubtitleRegion \<Rightarrow> TimedSubtitleRegion" where
  "absorb l r =
     l\<lparr>end_frame := end_frame r,
       confidence := (confidence l + confidence r) / 2,
       text_content :=
         (if text_content r \<noteq> [] \<and> \<not> str_contains (text_content l) (text_content r)
          then text_content l @ '' | '' @ text_content r else text_content l)\<rparr>"

definition cluster_ok :: "'a Hit_scheme list \<Rightarrow> 'a Hit_scheme list \<Rightarrow> bool" where
  "cluster_ok regions cluster \<longleftrightarrow> cluster \<noteq> [] \<and> set cluster \<subseteq> set regions"

definition groups_from :: "EdgeHit set \<Rightarrow> (int \<times> EdgeHit list) list \<Rightarrow> bool" where
  "groups_from A time_groups \<longleftrightarrow> list_all (\<lambda>kg. set (snd kg) \<subseteq> A) time_groups"

section \<open>Concrete inputs\<close>

definition ex_det :: AlternativeSubtitleDetector where
  "ex_det = \<lparr>det_width = 1920, det_height = 1080, det_fps = 25, det_total_frames = 5000\<rparr>"

definition ex_ocr_hits :: "OcrHit list" where
  "ex_ocr_hits =
     [\<lparr>frame_no = 0, hx = 10, hy = 900, hwidth = 50, hheight = 20, htext = ''abc'', hconfidence = 9 / 10\<rparr>,
      \<lparr>frame_no = 250, hx = 12, hy = 901, hwidth = 49, hheight = 21, htext = ''abd'', hconfidence = 8 / 10\<rparr>,
      \<lparr>frame_no = 4999, hx = 600, hy = 950, hwidth = 300, hheight = 40, htext = ''xyz'', hconfidence = 7 / 10\<rparr>]"

definition ex_edge_hits :: "EdgeHit list" where
  "ex_edge_hits =
     [\<lparr>frame_no = 100, hx = 10, hy = 900, hwidth = 700, hheight = 20, harea = 14000, aspect_ratio = 35\<rparr>,
      \<lparr>frame_no = 120, hx = 12, hy = 901, hwidth = 710, hheight = 21, harea = 14910, aspect_ratio = 710 / 21\<rparr>,
      \<lparr>frame_no = 300, hx = 12, hy = 901, hwidth = 710, hheight = 21, harea = 14910, aspect_ratio = 710 / 21\<rparr>]"

definition ex_changes :: "MotionChange list" where
  "ex_changes =
     [\<lparr>change_frame_no = 100, change_ratio = 2 / 10, prev_frame_no = 0\<rparr>,
      \<lparr>change_frame_no = 200, change_ratio = 3 / 10, prev_frame_no = 100\<rparr>,
      \<lparr>change_frame_no = 3000, change_ratio = 2 / 10, prev_frame_no = 2900\<rparr>,
      \<lparr>change_frame_no = 3100, change_ratio = 4 / 10, prev_frame_no = 3000\<rparr>]"

text \<open>An OCR hit whose box reaches beyond the right and the lower edge of the frame.\<close>

definition outside_hit :: OcrHit where
  "outside_hit = \<lparr>frame_no = 100, hx = 1800, hy = 1000, hwidth = 200, hheight = 100,
                  htext = ''subtitle'', hconfidence = 9 / 10\<rparr>"

text \<open>A video at the frame rate 23.976 (24000/1001 rounded to three places), and one OCR hit.\<close>

definition ntsc_det :: AlternativeSubtitleDetector where
  "ntsc_det = \<lparr>det_width = 1920, det_height = 1080, det_fps = 2997 / 125, det_total_frames = 1000\<rparr>"

definition ntsc_hit :: OcrHit where
  "ntsc_hit = \<lparr>frame_no = 100, hx = 600, hy = 950, hwidth = 300, hheight = 40,
               htext = ''subtitle'', hconfidence = 9 / 10\<rparr>"

section \<open>Task lifecycle: theorems\<close>

lemma status_value_processing: "status_value st = ''processing'' \<longleftrightarrow> st = PROCESSING"
  by (cases st) simp_all

lemma set_timestamps_status: "status (set_timestamps now st task) = status task"
  by (simp add: set_timestamps_def)

lemma set_timestamps_progress: "progress (set_timestamps now st task) = progress task"
  by (simp add: set_timestamps_def)

lemma update_task_status_stored:
  assumes "tasks tid = Some task"
  shows "\<exists>task'. update_task_status now tasks tid st prog err outp outf
            = (tasks(tid \<mapsto> task'), Some task') \<and> status task' = st
            \<and> (case prog of None \<Rightarrow> progress task' = progress task | Some p \<Rightarrow> progress task' = p)"
  using assms
  by (simp add: update_task_status_def Let_def set_timestamps_status set_timestamps_progress
      split: option.splits)

text \<open>
  Claim C2. For a task present in the store, \<^verbatim>\<open>update_task_progress\<close> writes the progress
  value and sets the status to \<open>PROCESSING\<close> whatever the status was; the updated task is
  the one stored under the id.
\<close>

theorem update_task_progress_sets_processing:
  assumes "tasks tid = Some task"
  shows "\<exists>task'. update_task_progress now tasks tid p = (tasks(tid \<mapsto> task'), Some task')
           \<and> status task' = PROCESSING \<and> progress task' = p"
  using assms update_task_status_stored [of tasks tid task now PROCESSING "Some p" None None None]
  by (simp add: update_task_progress_def)

theorem update_task_progress_sets_processing_witness:
  "example_store COMPLETED ''t1'' = Some (example_task COMPLETED)
   \<and> map_option status (fst (update_task_progress 9 (example_store COMPLETED) ''t1'' 42) ''t1'')
       = Some PROCESSING
   \<and> map_option progress (fst (update_task_progress 9 (example_store COMPLETED) ''t1'' 42) ''t1'')
       = Some 42"
proof -
  have h: "example_store COMPLETED ''t1'' = Some (example_task COMPLETED)"
    by (simp add: example_store_def)
  from update_task_progress_sets_processing
    [of "example_store COMPLETED" "''t1''" "example_task COMPLETED" 9 42] h
  show ?thesis by auto
qed

text \<open>
  Claim C1, as the code has it. \<^verbatim>\<open>update_task_status\<close> checks no transition: for a task
  present in the store the stored status becomes the requested one, whatever the status
  was before, so no request is rejected on account of the current status.
\<close>

theorem update_task_status_sets_requested_status:
  assumes "tasks tid = Some task"
  shows "\<exists>task'. fst (update_task_status now tasks tid st prog err outp outf) tid = Some task'
           \<and> status task' = st"
  using assms update_task_status_stored [of tasks tid task now st prog err outp outf]
  by auto

theorem update_task_status_sets_requested_status_witness:
  "example_store FAILED ''t1'' = Some (example_task FAILED)
   \<and> map_option status
       (fst (update_task_status 9 (example_store FAILED) ''t1'' DETECTING None None None None) ''t1'')
       = Some DETECTING"
proof -
  have h: "example_store FAILED ''t1'' = Some (example_task FAILED)"
    by (simp add: example_store_def)
  from update_task_status_sets_requested_status
    [of "example_store FAILED" "''t1''" "example_task FAILED" 9 DETECTING None None None None] h
  show ?thesis by auto
qed

text \<open>
  Claim C1 as stated fails: the transition from \<open>COMPLETED\<close> to \<open>PENDING\<close> is on neither
  path of the specification, and the request is carried out.
\<close>

theorem terminal_status_overwritten_counterexample:
  "\<not> spec_allowed_transition COMPLETED PENDING
   \<and> map_option status (example_store COMPLETED ''t1'') = Some COMPLETED
   \<and> map_option status
       (fst (update_task_status 9 (example_store COMPLETED) ''t1'' PENDING None None None None) ''t1'')
       = Some PENDING"
  by (simp add: example_store_def example_task_def update_task_status_def set_timestamps_def
      Let_def)

lemma task_call_run_started_at:
  assumes "tasks tid = Some task" and "started_at task = Some ts"
  shows "\<exists>task'. task_call_run tasks tid c tid = Some task' \<and> started_at task' = Some ts"
proof (cases c)
  case (Pair now call)
  show ?thesis
    using assms
    by (cases call)
      (simp_all add: Pair update_task_status_def update_task_progress_def cancel_task_def
        update_subtitle_regions_def set_timestamps_def Let_def split: option.splits)
qed

lemma task_calls_run_started_at:
  assumes "tasks tid = Some task" and "started_at task = Some ts"
  shows "\<exists>task'. task_calls_run tasks tid cs tid = Some task' \<and> started_at task' = Some ts"
  using assms
proof (induction cs arbitrary: tasks task)
  case Nil
  then show ?case by simp
next
  case (Cons c cs)
  from Cons.prems task_call_run_started_at [of tasks tid task ts c]
  obtain task1 where "task_call_run tasks tid c tid = Some task1" and "started_at task1 = Some ts"
    by blast
  from Cons.IH [of "task_call_run tasks tid c" task1] this show ?case by simp
qed

text \<open>
  Claim C8. For a task that has no start time yet, the first status update to
  \<open>PROCESSING\<close> stores the clock reading of that call as \<open>started_at\<close>, and whatever calls
  follow on the task (status updates to \<open>PROCESSING\<close> or to any other status, progress
  updates, cancellation, region updates), each at its own clock reading, the field still
  holds that first reading.
\<close>

theorem started_at_set_exactly_once:
  assumes "tasks tid = Some task" and "started_at task = None"
  shows "\<exists>task'. task_calls_run tasks tid
                    ((now, UpdateTaskStatus PROCESSING prog err outp outf) # calls) tid = Some task'
           \<and> started_at task' = Some now"
proof -
  have "\<exists>task1. task_call_run tasks tid (now, UpdateTaskStatus PROCESSING prog err outp outf) tid
                  = Some task1 \<and> started_at task1 = Some now"
    using assms
    by (simp add: update_task_status_def set_timestamps_def Let_def split: option.splits)
  then obtain task1 where
    "task_call_run tasks tid (now, UpdateTaskStatus PROCESSING prog err outp outf) tid = Some task1"
    and "started_at task1 = Some now" by blast
  from this task_calls_run_started_at
    [of "task_call_run tasks tid (now, UpdateTaskStatus PROCESSING prog err outp outf)" tid task1 now calls]
  show ?thesis by simp
qed

theorem started_at_set_exactly_once_witness:
  "example_store PENDING ''t1'' = Some (example_task PENDING)
   \<and> started_at (example_task PENDING) = None
   \<and> map_option started_at
       (task_calls_run (example_store PENDING) ''t1''
          [(3, UpdateTaskStatus PROCESSING None None None None),
           (5, UpdateTaskProgress 50),
           (8, UpdateTaskStatus PROCESSING None None None None),
           (9, CancelTask)] ''t1'') = Some (Some 3)"
proof -
  have h1: "example_store PENDING ''t1'' = Some (example_task PENDING)"
    by (simp add: example_store_def)
  have h2: "started_at (example_task PENDING) = None"
    by (simp add: example_task_def new_task_def)
  from started_at_set_exactly_once
    [of "example_store PENDING" "''t1''" "example_task PENDING" 3 None None None None
      "[(5, UpdateTaskProgress 50), (8, UpdateTaskStatus PROCESSING None None None None), (9, CancelTask)]"]
    h1 h2
  show ?thesis by auto
qed

text \<open>
  Claim C10. The cancel route answers a request for an existing task whose status is
  not \<open>PROCESSING\<close> with the status code 400 and the detail "only a task being processed
  can be cancelled", and the store it leaves is the store it found: status, progress,
  error message and timestamps of the task are untouched.
\<close>

theorem cancel_route_rejects_non_processing:
  assumes "tasks tid = Some task" and "status task \<noteq> PROCESSING"
  shows "cancel_task_route now tasks tid
           = (tasks, Inl (HTTPException 400 only_processing_cancellable))"
  using assms
  by (simp add: cancel_task_route_def get_task_def status_value_processing)

theorem cancel_route_rejects_non_processing_witness:
  "example_store PENDING ''t1'' = Some (example_task PENDING)
   \<and> status (example_task PENDING) \<noteq> PROCESSING
   \<and> cancel_task_route 4 (example_store PENDING) ''t1''
       = (example_store PENDING, Inl (HTTPException 400 only_processing_cancellable))"
proof -
  have h1: "example_store PENDING ''t1'' = Some (example_task PENDING)"
    by (simp add: example_store_def)
  have h2: "status (example_task PENDING) \<noteq> PROCESSING"
    by (simp add: example_task_def)
  from cancel_route_rejects_non_processing
    [of "example_store PENDING" "''t1''" "example_task PENDING" 4] h1 h2
  show ?thesis by simp
qed

lemma cancel_route_accepts_processing:
  assumes "tasks tid = Some task" and "status task = PROCESSING"
  shows "\<exists>tasks' task' r. cancel_task_route now tasks tid = (tasks', Inr r)
           \<and> tasks' tid = Some task' \<and> status task' = FAILED
           \<and> error_message task' = Some cancelled_by_user"
  using assms
  by (simp add: cancel_task_route_def get_task_def cancel_task_def update_task_status_def
      set_timestamps_def Let_def)

section \<open>Region preparation: theorems\<close>

lemma py_int_nonneg: "0 \<le> q \<Longrightarrow> 0 \<le> py_int q"
  by (simp add: py_int_def)





lemma floor_numeral_div_rat: "\<lfloor>numeral a / (numeral b :: rat)\<rfloor> = numeral a div numeral b"
  using floor_divide_of_int_eq [of "numeral a" "numeral b", where ?'a = rat] by simp














section \<open>Overlap merge: theorems\<close>

lemma startswith_iff: "startswith s p \<longleftrightarrow> (\<exists>suf. s = p @ suf)"
  by (induction s p rule: startswith.induct) auto

lemma str_contains_iff: "str_contains s sub \<longleftrightarrow> (\<exists>pre suf. s = pre @ sub @ suf)"
proof (induction s)
  case Nil
  then show ?case by auto
next
  case (Cons c cs)
  show ?case
  proof
    assume "str_contains (c # cs) sub"
    then consider "startswith (c # cs) sub" | "str_contains cs sub" by auto
    then show "\<exists>pre suf. c # cs = pre @ sub @ suf"
    proof cases
      case 1
      then obtain suf where "c # cs = sub @ suf" by (auto simp: startswith_iff)
      then have "c # cs = [] @ sub @ suf" by simp
      then show ?thesis by blast
    next
      case 2
      with Cons.IH obtain pre suf where "cs = pre @ sub @ suf" by blast
      then have "c # cs = (c # pre) @ sub @ suf" by simp
      then show ?thesis by blast
    qed
  next
    assume "\<exists>pre suf. c # cs = pre @ sub @ suf"
    then obtain pre suf where eq: "c # cs = pre @ sub @ suf" by blast
    show "str_contains (c # cs) sub"
    proof (cases pre)
      case Nil
      with eq have "startswith (c # cs) sub" by (auto simp: startswith_iff)
      then show ?thesis by simp
    next
      case (Cons p pre')
      with eq have "cs = pre' @ sub @ suf" by simp
      with Cons.IH have "str_contains cs sub" by blast
      then show ?thesis by simp
    qed
  qed
qed

lemma merge_region_Nil: "merge_region thr [] r = [r]"
  by (simp add: merge_region_def)

lemma merge_region_snoc:
  "merge_region thr (ms @ [l]) r =
     (if mergeable thr l r then ms @ [absorb l r] else ms @ [l, r])"
  by (simp add: merge_region_def mergeable_def absorb_def Let_def)

lemma mergeable_absorb_right: "mergeable thr a (absorb l r) = mergeable thr a l"
  by (simp add: mergeable_def absorb_def)

lemma start_frame_absorb: "start_frame (absorb l r) = start_frame l"
  by (simp add: absorb_def)

lemma merge_region_starts:
  "start_frame ` set (merge_region thr ms r) \<subseteq> insert (start_frame r) (start_frame ` set ms)"
  by (cases ms rule: rev_cases) (auto simp: merge_region_Nil merge_region_snoc start_frame_absorb)

lemma merge_region_sorted:
  assumes "sorted (map start_frame ms)" and "\<forall>m \<in> set ms. start_frame m \<le> start_frame r"
  shows "sorted (map start_frame (merge_region thr ms r))"
  using assms
  by (cases ms rule: rev_cases)
     (auto simp: merge_region_Nil merge_region_snoc start_frame_absorb sorted_append)

lemma merge_region_successively:
  assumes "successively (\<lambda>a b. \<not> mergeable thr a b) ms"
  shows "successively (\<lambda>a b. \<not> mergeable thr a b) (merge_region thr ms r)"
  using assms
  by (cases ms rule: rev_cases)
     (auto simp: merge_region_Nil merge_region_snoc successively_append_iff mergeable_absorb_right)

lemma foldl_merge_starts:
  "start_frame ` set (foldl (merge_region thr) [] rs) \<subseteq> start_frame ` set rs"
proof (induction rs rule: rev_induct)
  case Nil
  then show ?case by simp
next
  case (snoc r rs)
  have "start_frame ` set (merge_region thr (foldl (merge_region thr) [] rs) r)
          \<subseteq> insert (start_frame r) (start_frame ` set (foldl (merge_region thr) [] rs))"
    by (rule merge_region_starts)
  also have "\<dots> \<subseteq> insert (start_frame r) (start_frame ` set rs)"
    using snoc.IH by blast
  finally show ?case by simp
qed

lemma foldl_merge_sorted:
  "sorted (map start_frame rs) \<Longrightarrow> sorted (map start_frame (foldl (merge_region thr) [] rs))"
proof (induction rs rule: rev_induct)
  case Nil
  then show ?case by simp
next
  case (snoc r rs)
  from snoc.prems have s: "sorted (map start_frame rs)"
    and le: "\<forall>m \<in> set rs. start_frame m \<le> start_frame r"
    by (auto simp: sorted_append)
  have "\<forall>m \<in> set (foldl (merge_region thr) [] rs). start_frame m \<le> start_frame r"
    using foldl_merge_starts [of thr rs] le by auto
  with snoc.IH [OF s] show ?case by (simp add: merge_region_sorted)
qed

lemma foldl_merge_successively:
  "successively (\<lambda>a b. \<not> mergeable thr a b) (foldl (merge_region thr) [] rs)"
  by (induction rs rule: rev_induct) (simp_all add: merge_region_successively)

text \<open>A list in which no neighbour can be merged into its predecessor is left as it is.\<close>

lemma foldl_merge_fixed:
  "successively (\<lambda>a b. \<not> mergeable thr a b) (acc @ rs) \<Longrightarrow>
   foldl (merge_region thr) acc rs = acc @ rs"
proof (induction rs arbitrary: acc)
  case Nil
  then show ?case by simp
next
  case (Cons r rs)
  have step: "merge_region thr acc r = acc @ [r]"
  proof (cases acc rule: rev_cases)
    case Nil
    then show ?thesis by (simp add: merge_region_Nil)
  next
    case (snoc acc' l)
    with Cons.prems have "\<not> mergeable thr l r"
      by (simp add: successively_append_iff)
    with snoc show ?thesis by (simp add: merge_region_snoc)
  qed
  from Cons.prems have "successively (\<lambda>a b. \<not> mergeable thr a b) ((acc @ [r]) @ rs)" by simp
  from Cons.IH [OF this] step show ?case by simp
qed

text \<open>
  Claim C3. The merge pass is idempotent: applied to its own result, with the same time
  threshold, it returns that result.
\<close>

theorem merge_overlapping_regions_idempotent:
  "merge_overlapping_regions (merge_overlapping_regions analysis time_threshold) time_threshold
     = merge_overlapping_regions analysis time_threshold"
proof (cases "timed_regions analysis = []")
  case True
  then show ?thesis by (simp add: merge_overlapping_regions_def)
next
  case False
  let ?s = "sort_key start_frame (timed_regions analysis)"
  let ?m = "foldl (merge_region time_threshold) [] ?s"
  have "sorted (map start_frame ?m)" by (rule foldl_merge_sorted) simp
  then have "sort_key start_frame ?m = ?m" by (rule sort_key_id_if_sorted)
  moreover have "foldl (merge_region time_threshold) [] ?m = ?m"
    using foldl_merge_fixed [of time_threshold "[]" ?m] foldl_merge_successively [of time_threshold ?s] by simp
  ultimately show ?thesis using False
    by (simp add: merge_overlapping_regions_def Let_def)
qed

text \<open>
  Claim C4. The pass folds the loop body over the regions sorted by start frame. The
  first region is accepted. A later candidate is merged into the last accepted region
  exactly when the five conditions hold (differences of at most 20 in x, 20 in y, 30 in
  width, 20 in height, and start frame of the candidate minus end frame of the last
  region at most the time threshold, 10 by default); otherwise it is appended. A merge
  sets the end frame of the last region to the candidate's, its confidence to the mean of
  the two, and appends the candidate's text after the delimiter \<open>'' | ''\<close> exactly when
  that text is not empty and does not occur in the text of the last region.
\<close>

theorem merge_region_rule:
  "timed_regions (merge_overlapping_regions analysis time_threshold)
     = foldl (merge_region time_threshold) [] (sort_key start_frame (timed_regions analysis))
   \<and> merge_overlapping_regions_default analysis = merge_overlapping_regions analysis 10
   \<and> merge_region time_threshold [] candidate = [candidate]
   \<and> merge_region time_threshold (accepted @ [last_accepted]) candidate
     = (if \<bar>rx candidate - rx last_accepted\<bar> \<le> 20 \<and> \<bar>ry candidate - ry last_accepted\<bar> \<le> 20
           \<and> \<bar>rwidth candidate - rwidth last_accepted\<bar> \<le> 30
           \<and> \<bar>rheight candidate - rheight last_accepted\<bar> \<le> 20
           \<and> start_frame candidate - end_frame last_accepted \<le> time_threshold
        then accepted @
          [last_accepted\<lparr>
             end_frame := end_frame candidate,
             confidence := (confidence last_accepted + confidence candidate) / 2,
             text_content :=
               (if text_content candidate \<noteq> []
                   \<and> \<not> (\<exists>pre suf. text_content last_accepted = pre @ text_content candidate @ suf)
                then text_content last_accepted @ '' | '' @ text_content candidate
                else text_content last_accepted)\<rparr>]
        else accepted @ [last_accepted, candidate])"
proof -
  have "timed_regions (merge_overlapping_regions analysis time_threshold)
     = foldl (merge_region time_threshold) [] (sort_key start_frame (timed_regions analysis))"
    by (simp add: merge_overlapping_regions_def Let_def)
  moreover have "merge_overlapping_regions_default analysis = merge_overlapping_regions analysis 10"
    by (simp add: merge_overlapping_regions_default_def)
  moreover have "merge_region time_threshold [] candidate = [candidate]"
    by (rule merge_region_Nil)
  moreover note merge_region_snoc [of time_threshold accepted last_accepted candidate]
  ultimately show ?thesis
    by (simp add: mergeable_def absorb_def str_contains_iff)
qed

section \<open>Analysis of detection results: theorems\<close>

lemma py_min_Min: "py_min xs = Min (set xs)" if "xs \<noteq> []"
proof (cases xs)
  case Nil
  then show ?thesis using that by simp
next
  case (Cons a list)
  then show ?thesis using Min.set_eq_fold [of a list] by simp
qed

lemma py_max_Max: "py_max xs = Max (set xs)" if "xs \<noteq> []"
proof (cases xs)
  case Nil
  then show ?thesis using that by simp
next
  case (Cons a list)
  then show ?thesis using Max.set_eq_fold [of a list] by simp
qed

lemma py_min_bounds:
  assumes "xs \<noteq> []" and "\<forall>x \<in> set xs. lo \<le> x \<and> x \<le> hi"
  shows "lo \<le> py_min xs \<and> py_min xs \<le> hi"
proof -
  have "Min (set xs) \<in> set xs" using assms(1) by (simp add: Min_in)
  with assms show ?thesis by (simp add: py_min_Min)
qed

lemma py_max_bounds:
  assumes "xs \<noteq> []" and "\<forall>x \<in> set xs. lo \<le> x \<and> x \<le> hi"
  shows "lo \<le> py_max xs \<and> py_max xs \<le> hi"
proof -
  have "Max (set xs) \<in> set xs" using assms(1) by (simp add: Max_in)
  with assms show ?thesis by (simp add: py_max_Max)
qed

lemma py_min_le_py_max: "xs \<noteq> [] \<Longrightarrow> py_min xs \<le> py_max xs"
  by (simp add: py_min_Min py_max_Max)

lemma np_mean_bounds:
  assumes "xs \<noteq> []" and "\<forall>x \<in> set xs. lo \<le> x \<and> x \<le> hi"
  shows "lo \<le> np_mean xs \<and> np_mean xs \<le> hi"
proof -
  let ?n = "of_nat (length xs) :: rat"
  have n: "0 < ?n" using assms(1) by simp
  have "sum_list (map (\<lambda>_. lo) xs) \<le> sum_list (map (\<lambda>x. x) xs)"
    by (rule sum_list_mono) (use assms(2) in simp)
  then have lo: "?n * lo \<le> sum_list xs" by (simp add: sum_list_triv)
  have "sum_list (map (\<lambda>x. x) xs) \<le> sum_list (map (\<lambda>_. hi) xs)"
    by (rule sum_list_mono) (use assms(2) in simp)
  then have hi: "sum_list xs \<le> ?n * hi" by (simp add: sum_list_triv)
  from lo hi n show ?thesis
    by (simp add: np_mean_def pos_le_divide_eq pos_divide_le_eq mult.commute)
qed

lemma np_mean_add:
  "np_mean (map f xs) + np_mean (map g xs) = np_mean (map (\<lambda>x. f x + g x) xs)"
  by (simp add: np_mean_def sum_list_addf add_divide_distrib)

lemma py_int_add_le:
  assumes "0 \<le> a" and "0 \<le> b" and "a + b \<le> of_int W"
  shows "0 \<le> py_int a \<and> 0 \<le> py_int b \<and> py_int a + py_int b \<le> W"
proof -
  from assms(3) have "\<lfloor>a + b\<rfloor> \<le> \<lfloor>(of_int W :: rat)\<rfloor>" by (rule floor_mono)
  moreover have "\<lfloor>a\<rfloor> + \<lfloor>b\<rfloor> \<le> \<lfloor>a + b\<rfloor>" by (rule le_floor_add)
  ultimately have "\<lfloor>a\<rfloor> + \<lfloor>b\<rfloor> \<le> W" by simp
  with assms(1,2) show ?thesis by (simp add: py_int_def)
qed

lemma py_int_mean_box:
  assumes "xs \<noteq> []"
    and "\<forall>h \<in> set xs. 0 \<le> f h \<and> 0 \<le> g h \<and> f h + g h \<le> (W::int)"
  shows "0 \<le> py_int (np_mean (map (\<lambda>h. of_int (f h)) xs))
       \<and> 0 \<le> py_int (np_mean (map (\<lambda>h. of_int (g h)) xs))
       \<and> py_int (np_mean (map (\<lambda>h. of_int (f h)) xs))
           + py_int (np_mean (map (\<lambda>h. of_int (g h)) xs)) \<le> W"
proof -
  let ?a = "np_mean (map (\<lambda>h. of_int (f h)) xs)"
  let ?b = "np_mean (map (\<lambda>h. of_int (g h)) xs)"
  have ne: "map (\<lambda>h. (of_int (f h) :: rat)) xs \<noteq> []" "map (\<lambda>h. (of_int (g h) :: rat)) xs \<noteq> []"
    "map (\<lambda>h. (of_int (f h) + of_int (g h) :: rat)) xs \<noteq> []"
    using assms(1) by simp_all
  have "\<forall>q \<in> set (map (\<lambda>h. (of_int (f h) :: rat)) xs). 0 \<le> q \<and> q \<le> of_int W"
    using assms(2) by auto
  from np_mean_bounds [OF ne(1) this] have a: "0 \<le> ?a" by simp
  have "\<forall>q \<in> set (map (\<lambda>h. (of_int (g h) :: rat)) xs). 0 \<le> q \<and> q \<le> of_int W"
    using assms(2) by auto
  from np_mean_bounds [OF ne(2) this] have b: "0 \<le> ?b" by simp
  have "\<forall>q \<in> set (map (\<lambda>h. (of_int (f h) + of_int (g h) :: rat)) xs). 0 \<le> q \<and> q \<le> of_int W"
  proof
    fix q assume "q \<in> set (map (\<lambda>h. (of_int (f h) + of_int (g h) :: rat)) xs)"
    then obtain h where h: "h \<in> set xs" and q: "q = of_int (f h + g h)" by auto
    from assms(2) h have "0 \<le> f h + g h" "f h + g h \<le> W" by auto
    then show "0 \<le> q \<and> q \<le> of_int W" unfolding q by (simp only: of_int_0_le_iff of_int_le_iff) 
  qed
  from np_mean_bounds [OF ne(3) this] have "?a + ?b \<le> of_int W"
    by (simp add: np_mean_add)
  then have "\<lfloor>?a + ?b\<rfloor> \<le> \<lfloor>(of_int W :: rat)\<rfloor>" by (rule floor_mono)
  moreover have "\<lfloor>?a\<rfloor> + \<lfloor>?b\<rfloor> \<le> \<lfloor>?a + ?b\<rfloor>" by (rule le_floor_add)
  ultimately have "\<lfloor>?a\<rfloor> + \<lfloor>?b\<rfloor> \<le> W" by simp
  with a b show ?thesis by (simp add: py_int_def)
qed

lemma duration_half_nonneg: "0 \<le> q \<Longrightarrow> 0 \<le> py_int q div 2"
  using py_int_nonneg [of q] by simp

lemma expanded_range_within:
  assumes "frames \<noteq> []" and "\<forall>f \<in> set frames. 0 \<le> f \<and> f \<le> T - 1" and "0 \<le> d"
  shows "0 \<le> max 0 (py_min frames - d) \<and> max 0 (py_min frames - d) \<le> min (T - 1) (py_max frames + d)
       \<and> min (T - 1) (py_max frames + d) \<le> T - 1"
proof -
  from py_min_bounds [OF assms(1,2)] have a: "0 \<le> py_min frames" "py_min frames \<le> T - 1" by simp_all
  from py_max_bounds [OF assms(1,2)] have b: "0 \<le> py_max frames" "py_max frames \<le> T - 1" by simp_all
  from py_min_le_py_max [OF assms(1)] a b assms(3) show ?thesis by simp
qed

subsection \<open>Clusters are non-empty sublists of the hits\<close>

lemma cluster_inner_invariant:
  assumes "fst st \<noteq> []" and "set (fst st) \<subseteq> A" and "snd jr \<in> A"
  shows "fst (cluster_inner thr region1 st jr) \<noteq> []
       \<and> set (fst (cluster_inner thr region1 st jr)) \<subseteq> A"
  using assms
  by (cases st; cases jr) (simp add: cluster_inner_def Let_def)

lemma foldl_cluster_inner_invariant:
  assumes "fst st \<noteq> []" and "set (fst st) \<subseteq> A" and "snd ` set jrs \<subseteq> A"
  shows "fst (foldl (cluster_inner thr region1) st jrs) \<noteq> []
       \<and> set (fst (foldl (cluster_inner thr region1) st jrs)) \<subseteq> A"
  using assms
proof (induction jrs arbitrary: st)
  case Nil
  then show ?case by simp
next
  case (Cons jr jrs)
  from Cons.prems have "snd jr \<in> A" and rest: "snd ` set jrs \<subseteq> A" by auto
  from cluster_inner_invariant [OF Cons.prems(1,2) this(1), of thr region1]
  have "fst (cluster_inner thr region1 st jr) \<noteq> []"
    and "set (fst (cluster_inner thr region1 st jr)) \<subseteq> A" by simp_all
  from Cons.IH [OF this rest] show ?case by simp
qed

lemma snd_set_enumerate: "snd ` set (enumerate n xs) = set xs"
proof -
  have "snd ` set (enumerate n xs) = set (map snd (enumerate n xs))" by (simp only: set_map)
  also have "\<dots> = set xs" by (simp only: map_snd_enumerate)
  finally show ?thesis .
qed

lemma cluster_outer_invariant:
  assumes "list_all (cluster_ok regions) (fst st)" and "snd ir \<in> set regions"
  shows "list_all (cluster_ok regions) (fst (cluster_outer thr regions st ir))"
proof (cases st; cases ir)
  fix clusters used i region1
  assume st: "st = (clusters, used)" and ir: "ir = (i, region1)"
  let ?res = "foldl (cluster_inner thr region1) ([region1], insert i used) (enumerate 0 regions)"
  have "fst ([region1], insert i used) \<noteq> []" by simp
  moreover have "set (fst ([region1], insert i used)) \<subseteq> set regions"
    using assms(2) ir by simp
  moreover have "snd ` set (enumerate 0 regions) \<subseteq> set regions"
    by (simp add: snd_set_enumerate)
  ultimately have "fst ?res \<noteq> [] \<and> set (fst ?res) \<subseteq> set regions"
    by (rule foldl_cluster_inner_invariant)
  then have "cluster_ok regions (fst ?res)" by (simp add: cluster_ok_def)
  with assms(1) show ?thesis
    by (auto simp: st ir cluster_outer_def Let_def split: prod.splits)
qed

lemma foldl_cluster_outer_invariant:
  assumes "list_all (cluster_ok regions) (fst st)" and "snd ` set irs \<subseteq> set regions"
  shows "list_all (cluster_ok regions) (fst (foldl (cluster_outer thr regions) st irs))"
  using assms
proof (induction irs arbitrary: st)
  case Nil
  then show ?case by simp
next
  case (Cons ir irs)
  from Cons.prems have "snd ir \<in> set regions" and rest: "snd ` set irs \<subseteq> set regions" by auto
  from cluster_outer_invariant [OF Cons.prems(1) this(1), of thr]
  have "list_all (cluster_ok regions) (fst (cluster_outer thr regions st ir))" .
  from Cons.IH [OF this rest] show ?case by simp
qed

lemma cluster_regions_ok: "list_all (cluster_ok regions) (cluster_regions regions thr)"
proof (cases "regions = []")
  case True
  then show ?thesis by (simp add: cluster_regions_def)
next
  case False
  have "list_all (cluster_ok regions) (fst (([], {}) :: 'a Hit_scheme list list \<times> nat set))" by simp
  moreover have "snd ` set (enumerate 0 regions) \<subseteq> set regions"
    by (simp add: snd_set_enumerate)
  ultimately have "list_all (cluster_ok regions)
      (fst (foldl (cluster_outer thr regions) ([], {}) (enumerate 0 regions)))"
    by (rule foldl_cluster_outer_invariant)
  with False show ?thesis by (simp add: cluster_regions_def)
qed

subsection \<open>The OCR path\<close>

lemma ocr_cluster_region_time:
  assumes "cluster \<noteq> []"
  shows "\<exists>r. ocr_cluster_region self cluster = Inr r
           \<and> start_frame r
               = max 0 (Min (frame_no ` set cluster) - py_int (det_fps self * (5 / 2)) div 2)
           \<and> end_frame r
               = min (det_total_frames self - 1)
                   (Max (frame_no ` set cluster) + py_int (det_fps self * (5 / 2)) div 2)"
  using assms by (simp add: ocr_cluster_region_def Let_def py_min_Min py_max_Max)

lemma ocr_cluster_region_within:
  assumes ne: "cluster \<noteq> []" and hits: "\<forall>h \<in> set cluster. hit_within self h"
    and fps: "0 \<le> det_fps self"
  shows "\<exists>r. ocr_cluster_region self cluster = Inr r \<and> region_within self r"
proof -
  let ?d = "py_int (det_fps self * (5 / 2)) div 2"
  have d: "0 \<le> ?d" using fps by (intro duration_half_nonneg) simp
  have fr: "map frame_no cluster \<noteq> []" using ne by simp
  have "\<forall>f \<in> set (map frame_no cluster). 0 \<le> f \<and> f \<le> det_total_frames self - 1"
    using hits by (auto simp: hit_within_def)
  from expanded_range_within [OF fr this d]
  have time: "0 \<le> max 0 (py_min (map frame_no cluster) - ?d)"
    "max 0 (py_min (map frame_no cluster) - ?d)
       \<le> min (det_total_frames self - 1) (py_max (map frame_no cluster) + ?d)"
    "min (det_total_frames self - 1) (py_max (map frame_no cluster) + ?d) \<le> det_total_frames self - 1"
    by simp_all
  have "\<forall>h \<in> set cluster. 0 \<le> hx h \<and> 0 \<le> hwidth h \<and> hx h + hwidth h \<le> det_width self"
    using hits by (simp add: hit_within_def)
  from py_int_mean_box [OF ne this]
  have xs: "0 \<le> py_int (np_mean (map (\<lambda>h. of_int (hx h)) cluster))"
    "0 \<le> py_int (np_mean (map (\<lambda>h. of_int (hwidth h)) cluster))"
    "py_int (np_mean (map (\<lambda>h. of_int (hx h)) cluster))
       + py_int (np_mean (map (\<lambda>h. of_int (hwidth h)) cluster)) \<le> det_width self"
    by simp_all
  have "\<forall>h \<in> set cluster. 0 \<le> hy h \<and> 0 \<le> hheight h \<and> hy h + hheight h \<le> det_height self"
    using hits by (simp add: hit_within_def)
  from py_int_mean_box [OF ne this]
  have ys: "0 \<le> py_int (np_mean (map (\<lambda>h. of_int (hy h)) cluster))"
    "0 \<le> py_int (np_mean (map (\<lambda>h. of_int (hheight h)) cluster))"
    "py_int (np_mean (map (\<lambda>h. of_int (hy h)) cluster))
       + py_int (np_mean (map (\<lambda>h. of_int (hheight h)) cluster)) \<le> det_height self"
    by simp_all
  from ne time xs ys show ?thesis
    by (simp add: ocr_cluster_region_def Let_def region_within_def)
qed

lemma ocr_cluster_loop_all2:
  assumes "list_all (\<lambda>c. \<exists>r. ocr_cluster_region self c = Inr r \<and> P c r) clusters"
  shows "\<exists>rs. ocr_cluster_loop self timed clusters = Inr (timed @ rs) \<and> list_all2 P clusters rs"
  using assms
proof (induction clusters arbitrary: timed)
  case Nil
  then show ?case by simp
next
  case (Cons c cs)
  from Cons.prems obtain r where r: "ocr_cluster_region self c = Inr r" "P c r"
    and rest: "list_all (\<lambda>c. \<exists>r. ocr_cluster_region self c = Inr r \<and> P c r) cs" by auto
  from Cons.IH [OF rest, of "timed @ [r]"] obtain rs where
    "ocr_cluster_loop self (timed @ [r]) cs = Inr ((timed @ [r]) @ rs)" "list_all2 P cs rs" by blast
  with r have "ocr_cluster_loop self timed (c # cs) = Inr (timed @ (r # rs))"
    "list_all2 P (c # cs) (r # rs)" by simp_all
  then show ?case by blast
qed

lemma analyze_ocr_results_all2:
  assumes "list_all (\<lambda>c. \<exists>r. ocr_cluster_region self c = Inr r \<and> P c r) (cluster_regions regions 50)"
  shows "\<exists>a. analyze_ocr_results self regions = Inr a
           \<and> list_all2 P (cluster_regions regions 50) (timed_regions a)"
proof (cases "regions = []")
  case True
  then show ?thesis
    by (simp add: analyze_ocr_results_def create_empty_analysis_def cluster_regions_def)
next
  case False
  from ocr_cluster_loop_all2 [OF assms, of "[]"] obtain rs where
    "ocr_cluster_loop self [] (cluster_regions regions 50) = Inr rs"
    "list_all2 P (cluster_regions regions 50) rs" by auto
  with False show ?thesis by (simp add: analyze_ocr_results_def Let_def)
qed

lemma list_all2_right: "list_all2 (\<lambda>c r. Q r) cs rs \<Longrightarrow> list_all Q rs"
  by (induction cs rs rule: list_all2_induct) simp_all

lemma analyze_ocr_results_within:
  assumes hits: "list_all (hit_within self) regions" and fps: "0 \<le> det_fps self"
  shows "\<exists>a. analyze_ocr_results self regions = Inr a \<and> list_all (region_within self) (timed_regions a)"
proof -
  have "list_all (\<lambda>c. \<exists>r. ocr_cluster_region self c = Inr r \<and> region_within self r)
          (cluster_regions regions 50)"
  proof (unfold list_all_iff, rule ballI)
    fix c assume "c \<in> set (cluster_regions regions 50)"
    with cluster_regions_ok [of regions 50] have "cluster_ok regions c"
      by (simp add: list_all_iff)
    then have ne: "c \<noteq> []" and sub: "set c \<subseteq> set regions" by (simp_all add: cluster_ok_def)
    from sub hits have "\<forall>h \<in> set c. hit_within self h" by (auto simp: list_all_iff)
    from ocr_cluster_region_within [OF ne this fps]
    show "\<exists>r. ocr_cluster_region self c = Inr r \<and> region_within self r" .
  qed
  from analyze_ocr_results_all2 [OF this] obtain a where
    "analyze_ocr_results self regions = Inr a"
    "list_all2 (\<lambda>c r. region_within self r) (cluster_regions regions 50) (timed_regions a)" by blast
  then show ?thesis using list_all2_right by blast
qed

subsection \<open>The edge path\<close>

lemma group_append_from:
  assumes "groups_from A time_groups" and "region \<in> A"
  shows "groups_from A (group_append time_key region time_groups)"
  using assms
  by (induction time_key region time_groups rule: group_append.induct)
     (simp_all add: groups_from_def)

lemma edge_group_loop_from:
  assumes "groups_from A time_groups" and "set regions \<subseteq> A"
  shows "case edge_group_loop self time_groups regions of
           Inl e \<Rightarrow> e = ZeroDivisionError \<and> py_int (det_fps self * 2) = 0
         | Inr gs \<Rightarrow> groups_from A gs"
  using assms
proof (induction regions arbitrary: time_groups)
  case Nil
  then show ?case by simp
next
  case (Cons r rs)
  show ?case
  proof (cases "py_int (det_fps self * 2) = 0")
    case True
    then show ?thesis by simp
  next
    case False
    from Cons.prems have "r \<in> A" and rest: "set rs \<subseteq> A" by simp_all
    from group_append_from [OF Cons.prems(1) this(1)]
    have "groups_from A (group_append (frame_no r div py_int (det_fps self * 2)) r time_groups)" .
    from Cons.IH [OF this rest] False show ?thesis by (simp add: Let_def)
  qed
qed

lemma edge_group_region_within:
  assumes ne: "grp \<noteq> []" and hits: "\<forall>h \<in> set grp. hit_within self h"
    and fps: "0 \<le> det_fps self"
  shows "region_within self (edge_group_region self grp)"
proof -
  let ?d = "py_int (det_fps self * 3) div 2"
  have d: "0 \<le> ?d" using fps by (intro duration_half_nonneg) simp
  have fr: "map frame_no grp \<noteq> []" using ne by simp
  have "\<forall>f \<in> set (map frame_no grp). 0 \<le> f \<and> f \<le> det_total_frames self - 1"
    using hits by (auto simp: hit_within_def)
  from expanded_range_within [OF fr this d]
  have time: "0 \<le> max 0 (py_min (map frame_no grp) - ?d)"
    "max 0 (py_min (map frame_no grp) - ?d)
       \<le> min (det_total_frames self - 1) (py_max (map frame_no grp) + ?d)"
    "min (det_total_frames self - 1) (py_max (map frame_no grp) + ?d) \<le> det_total_frames self - 1"
    by simp_all
  have box: "0 \<le> py_min (map f grp) \<and> py_min (map f grp) \<le> py_max (map (\<lambda>h. f h + g h) grp)
             \<and> py_max (map (\<lambda>h. f h + g h) grp) \<le> W"
    if *: "\<forall>h \<in> set grp. 0 \<le> f h \<and> 0 \<le> g h \<and> f h + g h \<le> W"
    for f g :: "EdgeHit \<Rightarrow> int" and W
  proof -
    have n1: "map f grp \<noteq> []" and n2: "map (\<lambda>h. f h + g h) grp \<noteq> []" using ne by simp_all
    have "\<forall>v \<in> set (map f grp). 0 \<le> v \<and> v \<le> W" using * by auto
    from py_min_bounds [OF n1 this] have lo: "0 \<le> py_min (map f grp)" by simp
    have "\<forall>v \<in> set (map (\<lambda>h. f h + g h) grp). 0 \<le> v \<and> v \<le> W" using * by auto
    from py_max_bounds [OF n2 this] have hi: "py_max (map (\<lambda>h. f h + g h) grp) \<le> W" by simp
    obtain h0 where h0: "h0 \<in> set grp" using ne by (cases grp) auto
    have "py_min (map f grp) \<le> f h0" using h0 n1 by (simp add: py_min_Min)
    also have "\<dots> \<le> f h0 + g h0" using * h0 by simp
    also have "\<dots> \<le> py_max (map (\<lambda>h. f h + g h) grp)" using h0 n2 by (simp add: py_max_Max)
    finally show ?thesis using lo hi by simp
  qed
  have "\<forall>h \<in> set grp. 0 \<le> hx h \<and> 0 \<le> hwidth h \<and> hx h + hwidth h \<le> det_width self"
    using hits by (simp add: hit_within_def)
  from box [OF this] have xs: "0 \<le> py_min (map hx grp)"
    "py_min (map hx grp) \<le> py_max (map (\<lambda>h. hx h + hwidth h) grp)"
    "py_max (map (\<lambda>h. hx h + hwidth h) grp) \<le> det_width self" by simp_all
  have "\<forall>h \<in> set grp. 0 \<le> hy h \<and> 0 \<le> hheight h \<and> hy h + hheight h \<le> det_height self"
    using hits by (simp add: hit_within_def)
  from box [OF this] have ys: "0 \<le> py_min (map hy grp)"
    "py_min (map hy grp) \<le> py_max (map (\<lambda>h. hy h + hheight h) grp)"
    "py_max (map (\<lambda>h. hy h + hheight h) grp) \<le> det_height self" by simp_all
  from time xs ys show ?thesis
    by (simp add: edge_group_region_def Let_def region_within_def)
qed

lemma edge_region_loop_within:
  assumes "list_all (region_within self) timed" and "groups_from A time_groups"
    and "\<forall>h \<in> A. hit_within self h" and "0 \<le> det_fps self"
  shows "list_all (region_within self) (edge_region_loop self timed time_groups)"
  using assms(1,2)
proof (induction time_groups arbitrary: timed)
  case Nil
  then show ?case by simp
next
  case (Cons kg rest)
  obtain time_key grp where kg: "kg = (time_key, grp)" by (cases kg)
  from Cons.prems(2) have sub: "set grp \<subseteq> A" and rest: "groups_from A rest"
    by (simp_all add: groups_from_def kg)
  show ?case
  proof (cases "length grp \<ge> 2")
    case True
    then have "grp \<noteq> []" by auto
    moreover from sub assms(3) have "\<forall>h \<in> set grp. hit_within self h" by auto
    ultimately have "region_within self (edge_group_region self grp)"
      using assms(4) by (rule edge_group_region_within)
    with Cons.prems(1) have "list_all (region_within self) (timed @ [edge_group_region self grp])"
      by simp
    from Cons.IH [OF this rest] True show ?thesis by (simp add: kg)
  next
    case False
    from Cons.IH [OF Cons.prems(1) rest] False show ?thesis by (simp add: kg)
  qed
qed

lemma py_int_double_zero:
  assumes "0 \<le> q" and "py_int (q * 2) = 0"
  shows "q < 1 / 2"
proof -
  from assms have "\<lfloor>q * 2\<rfloor> = 0" by (simp add: py_int_def)
  then have "q * 2 < 1" by (simp add: floor_eq_iff)
  then show ?thesis by simp
qed

lemma analyze_edge_results_within:
  assumes hits: "list_all (hit_within self) regions" and fps: "0 \<le> det_fps self"
  shows "case analyze_edge_results self regions of
           Inl e \<Rightarrow> e = ZeroDivisionError \<and> det_fps self < 1 / 2
         | Inr a \<Rightarrow> list_all (region_within self) (timed_regions a)"
proof (cases "regions = []")
  case True
  then show ?thesis by (simp add: analyze_edge_results_def create_empty_analysis_def)
next
  case False
  have g0: "groups_from (set regions) []" by (simp add: groups_from_def)
  have A: "\<forall>h \<in> set regions. hit_within self h" using hits by (simp add: list_all_iff)
  show ?thesis
  proof (cases "edge_group_loop self [] regions")
    case (Inl e)
    with edge_group_loop_from [OF g0 subset_refl, of self]
    have "e = ZeroDivisionError" "py_int (det_fps self * 2) = 0" by simp_all
    with py_int_double_zero [OF fps] Inl False show ?thesis
      by (simp add: analyze_edge_results_def)
  next
    case (Inr gs)
    with edge_group_loop_from [OF g0 subset_refl, of self]
    have "groups_from (set regions) gs" by simp
    from edge_region_loop_within [OF _ this A fps, of "[]"]
    have "list_all (region_within self) (edge_region_loop self [] gs)" by simp
    with Inr False show ?thesis by (simp add: analyze_edge_results_def Let_def)
  qed
qed

lemma analyze_edge_results_returns:
  assumes "1 / 2 \<le> det_fps self"
  shows "\<exists>a. analyze_edge_results self regions = Inr a"
proof -
  have "\<lfloor>det_fps self * 2\<rfloor> \<noteq> 0"
  proof
    assume "\<lfloor>det_fps self * 2\<rfloor> = 0"
    then have "det_fps self * 2 < 1" by (simp add: floor_eq_iff)
    with assms show False by simp
  qed
  with assms have nz: "py_int (det_fps self * 2) \<noteq> 0" by (simp add: py_int_def)
  have "\<exists>gs. edge_group_loop self time_groups regions = Inr gs" for time_groups
    using nz by (induction regions arbitrary: time_groups) (simp_all add: Let_def)
  then obtain gs where "edge_group_loop self [] regions = Inr gs" by blast
  then show ?thesis by (simp add: analyze_edge_results_def Let_def)
qed

subsection \<open>The motion path\<close>

text \<open>
  The list \<^verbatim>\<open>subtitle_segments\<close> is empty when the loop starts, and the loop appends to it
  only where it is not empty: it stays empty, and the only segment is the one added after
  the loop, from the first change to the last.
\<close>

lemma motion_step_no_segments:
  "motion_step self ([], cs) c
     = ([], Some (case cs of None \<Rightarrow> change_frame_no c | Some s \<Rightarrow> s))"
  by (simp add: motion_step_def split: option.splits)

lemma foldl_motion_step_started:
  "foldl (motion_step self) ([], Some s) cs = ([], Some s)"
  by (induction cs) (simp_all add: motion_step_no_segments)

lemma motion_segments_Cons:
  "motion_segments self (c # cs)
     = [\<lparr>seg_start = change_frame_no c, seg_end = change_frame_no (last (c # cs)),
         seg_changes = int (length (c # cs))\<rparr>]"
  by (simp add: motion_segments_def motion_step_no_segments foldl_motion_step_started)

lemma analyze_motion_results_regions:
  "timed_regions (analyze_motion_results self changes)
     = (if 2 \<le> length changes
        then [motion_segment_region self
                \<lparr>seg_start = change_frame_no (hd changes),
                 seg_end = change_frame_no (last changes),
                 seg_changes = int (length changes)\<rparr>]
        else [])"
proof (cases changes)
  case Nil
  then show ?thesis by (simp add: analyze_motion_results_def create_empty_analysis_def)
next
  case (Cons c cs)
  then show ?thesis
    by (simp add: analyze_motion_results_def motion_segments_Cons Let_def del: last.simps)
qed

lemma motion_segment_region_box:
  assumes "0 \<le> det_width self" and "0 \<le> det_height self"
  shows "0 \<le> rx (motion_segment_region self seg) \<and> 0 \<le> ry (motion_segment_region self seg)
       \<and> 0 \<le> rwidth (motion_segment_region self seg) \<and> 0 \<le> rheight (motion_segment_region self seg)
       \<and> rx (motion_segment_region self seg) + rwidth (motion_segment_region self seg) \<le> det_width self
       \<and> ry (motion_segment_region self seg) + rheight (motion_segment_region self seg) \<le> det_height self"
proof -
  let ?W = "of_int (det_width self) :: rat" and ?H = "of_int (det_height self) :: rat"
  have W: "0 \<le> ?W" and H: "0 \<le> ?H" using assms by simp_all
  have "0 \<le> ?W * (1 / 10)" "0 \<le> ?W * (8 / 10)" "?W * (1 / 10) + ?W * (8 / 10) \<le> ?W"
    using W by simp_all
  from py_int_add_le [OF this] have xs:
    "0 \<le> py_int (?W * (1 / 10))" "0 \<le> py_int (?W * (8 / 10))"
    "py_int (?W * (1 / 10)) + py_int (?W * (8 / 10)) \<le> det_width self" by simp_all
  have "0 \<le> ?H * (8 / 10)" "0 \<le> ?H * (15 / 100)" "?H * (8 / 10) + ?H * (15 / 100) \<le> ?H"
    using H by simp_all
  from py_int_add_le [OF this] have ys:
    "0 \<le> py_int (?H * (8 / 10))" "0 \<le> py_int (?H * (15 / 100))"
    "py_int (?H * (8 / 10)) + py_int (?H * (15 / 100)) \<le> det_height self" by simp_all
  from xs ys show ?thesis by (simp add: motion_segment_region_def)
qed

lemma analyze_motion_results_within:
  assumes size: "0 \<le> det_width self" "0 \<le> det_height self"
    and range: "list_all (\<lambda>c. 0 \<le> change_frame_no c \<and> change_frame_no c \<le> det_total_frames self - 1) changes"
    and order: "sorted (map change_frame_no changes)"
  shows "list_all (region_within self) (timed_regions (analyze_motion_results self changes))"
proof (cases "2 \<le> length changes")
  case False
  then show ?thesis by (simp add: analyze_motion_results_regions)
next
  case True
  then have ne: "changes \<noteq> []" by auto
  then have mem: "hd changes \<in> set changes" "last changes \<in> set changes" by simp_all
  with range have lo: "0 \<le> change_frame_no (hd changes)"
    and hi: "change_frame_no (last changes) \<le> det_total_frames self - 1"
    by (simp_all add: list_all_iff)
  have "change_frame_no (hd changes) \<le> change_frame_no (last changes)"
  proof -
    have "hd (map change_frame_no changes) \<le> last (map change_frame_no changes)"
      using order ne
      by (metis (no_types) Nil_is_map_conv last_in_set list.exhaust_sel order_refl set_ConsD sorted_simps(2))
    then show ?thesis using ne by (simp add: hd_map last_map)
  qed
  with lo hi motion_segment_region_box [OF size] True show ?thesis
    by (simp add: analyze_motion_results_regions region_within_def motion_segment_region_def)
qed

subsection \<open>The claims\<close>

text \<open>
  Claim C5, evaluated on the code. At 25 frames per second five seconds are 125 frames.
  The change events at frames 100, 200, 3000 and 3100 have gaps of 100, 2800 and 100
  frames: as the claim has it they form the segments \<open>[100, 200]\<close> and \<open>[3000, 3100]\<close>,
  each with two events, hence two regions. The code emits the single region
  \<open>[100, 3100]\<close>: the gap of 2800 frames closes no segment.
\<close>

theorem motion_gap_not_split:
  "map (\<lambda>r. (start_frame r, end_frame r)) (timed_regions (analyze_motion_results ex_det ex_changes))
     = [(100, 3100)]
   \<and> spec_motion_ranges (det_fps ex_det) (map change_frame_no ex_changes)
     = [(100, 200), (3000, 3100)]"
  by (simp add: analyze_motion_results_regions ex_changes_def motion_segment_region_def
      spec_motion_ranges_def ex_det_def)

text \<open>
  Claim C6 as stated fails: no path clips a box. An OCR hit whose box reaches beyond the
  frame of a 1920 by 1080 video gives a region with the same box, whose right edge 2000
  and lower edge 1100 are outside the frame.
\<close>

theorem ocr_box_outside_frame_counterexample:
  "(case analyze_ocr_results ex_det [outside_hit] of
      Inl e \<Rightarrow> []
    | Inr a \<Rightarrow> map (\<lambda>r. (rx r + rwidth r, ry r + rheight r, region_within ex_det r)) (timed_regions a))
     = [(2000, 1100, False)]
   \<and> det_width ex_det = 1920 \<and> det_height ex_det = 1080"
  by (simp add: analyze_ocr_results_def cluster_regions_def cluster_outer_def cluster_inner_def
      ocr_cluster_region_def np_mean_def py_int_def ex_det_def outside_hit_def Let_def
      region_within_def floor_numeral_div_rat)

text \<open>
  Claim C6, as the code has it. When the frame rate and the frame size are not
  negative, every OCR hit and every edge hit lies within the video, and the motion
  changes have frame numbers of the video in non-decreasing order, then every region of
  the three paths has \<open>0 \<le> start_frame \<le> end_frame \<le> total_frames - 1\<close> and a box inside
  the frame. The OCR and the motion analysis always return; the edge analysis returns or
  raises \<^verbatim>\<open>ZeroDivisionError\<close>, which it does only at a frame rate below one half.
\<close>

theorem emitted_regions_within_frame:
  assumes "0 \<le> det_fps self" and "0 \<le> det_width self" and "0 \<le> det_height self"
    and "list_all (hit_within self) ocr_hits"
    and "list_all (hit_within self) edge_hits"
    and "list_all (\<lambda>c. 0 \<le> change_frame_no c \<and> change_frame_no c \<le> det_total_frames self - 1) changes"
    and "sorted (map change_frame_no changes)"
  shows "(\<exists>a. analyze_ocr_results self ocr_hits = Inr a
              \<and> list_all (region_within self) (timed_regions a))
       \<and> (case analyze_edge_results self edge_hits of
             Inl e \<Rightarrow> e = ZeroDivisionError \<and> det_fps self < 1 / 2
           | Inr a \<Rightarrow> list_all (region_within self) (timed_regions a))
       \<and> list_all (region_within self) (timed_regions (analyze_motion_results self changes))"
  using analyze_ocr_results_within [OF assms(4,1)]
    analyze_edge_results_within [OF assms(5,1)]
    analyze_motion_results_within [OF assms(2,3,6,7)]
  by simp

theorem emitted_regions_within_frame_witness:
  "0 \<le> det_fps ex_det \<and> 0 \<le> det_width ex_det \<and> 0 \<le> det_height ex_det
   \<and> list_all (hit_within ex_det) ex_ocr_hits
   \<and> list_all (hit_within ex_det) ex_edge_hits
   \<and> list_all (\<lambda>c. 0 \<le> change_frame_no c \<and> change_frame_no c \<le> det_total_frames ex_det - 1) ex_changes
   \<and> sorted (map change_frame_no ex_changes)
   \<and> (\<exists>a. analyze_ocr_results ex_det ex_ocr_hits = Inr a
          \<and> list_all (region_within ex_det) (timed_regions a) \<and> length (timed_regions a) = 2)
   \<and> (\<exists>a. analyze_edge_results ex_det ex_edge_hits = Inr a
          \<and> list_all (region_within ex_det) (timed_regions a) \<and> length (timed_regions a) = 1)
   \<and> list_all (region_within ex_det) (timed_regions (analyze_motion_results ex_det ex_changes))
   \<and> length (timed_regions (analyze_motion_results ex_det ex_changes)) = 1"
proof -
  have h1: "0 \<le> det_fps ex_det" and h2: "0 \<le> det_width ex_det" and h3: "0 \<le> det_height ex_det"
    by (simp_all add: ex_det_def)
  have h4: "list_all (hit_within ex_det) ex_ocr_hits"
    by (simp add: hit_within_def ex_det_def ex_ocr_hits_def)
  have h5: "list_all (hit_within ex_det) ex_edge_hits"
    by (simp add: hit_within_def ex_det_def ex_edge_hits_def)
  have h6: "list_all (\<lambda>c. 0 \<le> change_frame_no c \<and> change_frame_no c \<le> det_total_frames ex_det - 1) ex_changes"
    by (simp add: ex_det_def ex_changes_def)
  have h7: "sorted (map change_frame_no ex_changes)"
    by (simp add: ex_changes_def)
  have n1: "(case analyze_ocr_results ex_det ex_ocr_hits of Inl e \<Rightarrow> 0 | Inr a \<Rightarrow> length (timed_regions a)) = 2"
    by (simp add: analyze_ocr_results_def cluster_regions_def cluster_outer_def cluster_inner_def
      ocr_cluster_region_def ex_ocr_hits_def Let_def)
  have n2: "(case analyze_edge_results ex_det ex_edge_hits of Inl e \<Rightarrow> 0 | Inr a \<Rightarrow> length (timed_regions a)) = 1"
    by (simp add: analyze_edge_results_def py_int_def ex_det_def ex_edge_hits_def Let_def)
  have n3: "length (timed_regions (analyze_motion_results ex_det ex_changes)) = 1"
    by (simp add: analyze_motion_results_regions ex_changes_def)
  from emitted_regions_within_frame [OF h1 h2 h3 h4 h5 h6 h7] h1 h2 h3 h4 h5 h6 h7 n1 n2 n3
  show ?thesis by (auto split: sum.splits)
qed

text \<open>
  Claim C7 as stated fails at the frame rate 23.976: \<open>fps \<times> 2.5 = 59.94\<close>, which
  \<^verbatim>\<open>int\<close> truncates to 59 and \<^verbatim>\<open>// 2\<close> halves to 29, so that a cluster with the single
  hit frame 100 gives the range \<open>[71, 129]\<close>, where half of \<open>round 59.94 = 60\<close> gives
  \<open>[70, 130]\<close>.
\<close>

theorem ocr_expansion_counterexample:
  "(case analyze_ocr_results ntsc_det [ntsc_hit] of
      Inl e \<Rightarrow> []
    | Inr a \<Rightarrow> map (\<lambda>r. (start_frame r, end_frame r)) (timed_regions a)) = [(71, 129)]
   \<and> spec_half_expansion (det_fps ntsc_det) = 30
   \<and> spec_clip (det_total_frames ntsc_det) (of_int (frame_no ntsc_hit) - spec_half_expansion (det_fps ntsc_det)) = 70
   \<and> spec_clip (det_total_frames ntsc_det) (of_int (frame_no ntsc_hit) + spec_half_expansion (det_fps ntsc_det)) = 130"
  by (simp add: analyze_ocr_results_def cluster_regions_def cluster_outer_def cluster_inner_def
      ocr_cluster_region_def np_mean_def py_int_def ntsc_det_def ntsc_hit_def Let_def
      spec_clip_def spec_half_expansion_def round_def floor_numeral_div_rat)

text \<open>
  Claim C7, as the code has it. The OCR analysis returns one region for each cluster, in
  order, whose start frame is the least hit frame of the cluster minus
  \<open>int (fps \<times> 2.5) // 2\<close>, raised to 0 when it is below, and whose end frame is the
  greatest hit frame plus \<open>int (fps \<times> 2.5) // 2\<close>, lowered to \<open>total_frames - 1\<close> when it
  is above.
\<close>

theorem ocr_cluster_time_range:
  "\<exists>a. analyze_ocr_results self regions = Inr a
     \<and> list_all2
         (\<lambda>cluster r.
            start_frame r
              = max 0 (Min (frame_no ` set cluster) - py_int (det_fps self * (5 / 2)) div 2)
            \<and> end_frame r
              = min (det_total_frames self - 1)
                  (Max (frame_no ` set cluster) + py_int (det_fps self * (5 / 2)) div 2))
         (cluster_regions regions 50) (timed_regions a)"
proof (rule analyze_ocr_results_all2, unfold list_all_iff, rule ballI)
  fix c assume "c \<in> set (cluster_regions regions 50)"
  with cluster_regions_ok [of regions 50] have "c \<noteq> []"
    by (simp add: list_all_iff cluster_ok_def)
  then show "\<exists>r. ocr_cluster_region self c = Inr r
           \<and> start_frame r
               = max 0 (Min (frame_no ` set c) - py_int (det_fps self * (5 / 2)) div 2)
           \<and> end_frame r
               = min (det_total_frames self - 1)
                   (Max (frame_no ` set c) + py_int (det_fps self * (5 / 2)) div 2)"
    by (rule ocr_cluster_region_time)
qed

end
